theory Spec2Isabelle
  imports Complex_Main
begin

section \<open>Entity model (main.cpp, lines 9-54)\<close>

text \<open>
  \<^verbatim>\<open>enum class NPCType { PRINCESS, DRAGON, KNIGHT };\<close>
  The three subclasses of \<^verbatim>\<open>NPC\<close> carry no field of their own, only the value
  \<^verbatim>\<open>getType()\<close> returns, so an object is a record of the base class's four fields
  together with its dynamic type.
\<close>

datatype NPCType = PRINCESS | DRAGON | KNIGHT

record NPC =
  getType :: NPCType
  getName :: string
  getX :: int
  getY :: int
  isAlive :: bool

text \<open>\<^verbatim>\<open>void markDead() { alive = false; }\<close>\<close>

definition markDead :: "NPC \<Rightarrow> NPC" where
  "markDead n = n\<lparr>isAlive := False\<rparr>"

text \<open>
  A \<^verbatim>\<open>double\<close> is the real number it holds. \<open>binary64\<close> is the rounding of IEEE 754
  binary64 arithmetic (to nearest, ties to the even mantissa): the exponent of the last
  mantissa bit is that of the binade of \<open>x\<close>, not below that of the subnormal numbers, and
  \<open>x\<close> is rounded to a multiple of that power of two. Infinities are left out: the results
  rounded here stay below \<open>2^1024\<close>.
\<close>

definition round_half_even :: "real \<Rightarrow> int" where
  "round_half_even q =
     (if q - of_int \<lfloor>q\<rfloor> < 1 / 2 then \<lfloor>q\<rfloor>
      else if 1 / 2 < q - of_int \<lfloor>q\<rfloor> then \<lfloor>q\<rfloor> + 1
      else if even \<lfloor>q\<rfloor> then \<lfloor>q\<rfloor> else \<lfloor>q\<rfloor> + 1)"

definition binary64 :: "real \<Rightarrow> real" where
  "binary64 x =
     (if x = 0 then 0
      else of_int (round_half_even (x / 2 powr of_int (max \<lfloor>log 2 \<bar>x\<bar>\<rfloor> (- 1022) - 52)))
           * 2 powr of_int (max \<lfloor>log 2 \<bar>x\<bar>\<rfloor> (- 1022) - 52))"

text \<open>
  \<^verbatim>\<open>return std::sqrt(std::pow(x - other.x, 2) + std::pow(y - other.y, 2));\<close>
  Each of the four floating-point operations rounds its result: the two squares, their
  sum and the square root (\<^verbatim>\<open>std::sqrt\<close> is correctly rounded; \<^verbatim>\<open>std::pow\<close> is taken
  to be, and is exact where the square is below \<open>2^53\<close>). The two differences are taken
  in \<^verbatim>\<open>int\<close>; for the coordinates a registry holds, in \<open>[0,500]\<close>, they do not
  overflow.
\<close>

definition distanceTo :: "NPC \<Rightarrow> NPC \<Rightarrow> real" where
  "distanceTo a b =
     binary64 (sqrt (binary64 (binary64 ((real_of_int (getX a - getX b))\<^sup>2)
                                + binary64 ((real_of_int (getY a - getY b))\<^sup>2))))"

section \<open>Observer and console (lines 57-68)\<close>

text \<open>
  What the program writes to \<^verbatim>\<open>std::cout\<close>, one constructor per output statement of the
  source: the prompt of the command loop, the line of \<^verbatim>\<open>ConsoleObserver::onKill\<close>
  (killer's name, victim's name), one line of \<^verbatim>\<open>Dungeon::print\<close>, and the three
  error messages.
\<close>

datatype message =
    Prompt
  | KillLine string string
  | NPCLine NPCType string int int
  | BadCoordinates
  | UnknownNPC
  | UnknownCommand

section \<open>The dungeon and the battle visitor (lines 90-123, 154-221)\<close>

text \<open>
  \<^verbatim>\<open>std::vector<std::unique_ptr<NPC>> npcs\<close> is the list of the objects pointed to; a
  pointer into the vector is an index. \<open>console\<close> accumulates what was written to
  standard output.
\<close>

record dungeon =
  npcs :: "NPC list"
  console :: "message list"

text \<open>\<^verbatim>\<open>ConsoleObserver::onKill(killer, victim)\<close>\<close>

definition onKill :: "NPC \<Rightarrow> NPC \<Rightarrow> dungeon \<Rightarrow> dungeon" where
  "onKill killer victim d = d\<lparr>console := console d @ [KillLine (getName killer) (getName victim)]\<rparr>"

text \<open>
  The three \<^verbatim>\<open>BattleVisitor::visit\<close> overloads. \<open>self\<close> is the index of the visited
  object, \<open>other\<close> the index last given to \<^verbatim>\<open>setOther\<close> (never null where
  \<^verbatim>\<open>accept\<close> is called).
\<close>

definition visit_Princess :: "real \<Rightarrow> nat \<Rightarrow> nat \<Rightarrow> dungeon \<Rightarrow> dungeon" where
  "visit_Princess rng self other d = d"

definition visit_Dragon :: "real \<Rightarrow> nat \<Rightarrow> nat \<Rightarrow> dungeon \<Rightarrow> dungeon" where
  "visit_Dragon rng self other d =
     (if isAlive (npcs d ! other) \<and> distanceTo (npcs d ! self) (npcs d ! other) \<le> rng then
        if getType (npcs d ! other) = PRINCESS then
          (let d' = d\<lparr>npcs := (npcs d)[other := markDead (npcs d ! other)]\<rparr>
           in onKill (npcs d' ! self) (npcs d' ! other) d')
        else d
      else d)"

definition visit_Knight :: "real \<Rightarrow> nat \<Rightarrow> nat \<Rightarrow> dungeon \<Rightarrow> dungeon" where
  "visit_Knight rng self other d =
     (if isAlive (npcs d ! other) \<and> distanceTo (npcs d ! self) (npcs d ! other) \<le> rng then
        if getType (npcs d ! other) = DRAGON then
          (let d' = d\<lparr>npcs := (npcs d)[other := markDead (npcs d ! other)]\<rparr>
           in onKill (npcs d' ! self) (npcs d' ! other) d')
        else d
      else d)"

text \<open>\<^verbatim>\<open>npcs[self]->accept(visitor)\<close> after \<^verbatim>\<open>visitor.setOther(npcs[other].get())\<close>:
  the virtual call dispatches on the dynamic type of the visited object.\<close>

definition accept :: "real \<Rightarrow> nat \<Rightarrow> nat \<Rightarrow> dungeon \<Rightarrow> dungeon" where
  "accept rng self other d =
     (case getType (npcs d ! self) of
        PRINCESS \<Rightarrow> visit_Princess rng self other d
      | DRAGON \<Rightarrow> visit_Dragon rng self other d
      | KNIGHT \<Rightarrow> visit_Knight rng self other d)"

text \<open>
  The inner loop of \<^verbatim>\<open>Dungeon::battle\<close>:
  \<^verbatim>\<open>for (size_t j = i + 1; j < npcs.size(); ++j) { if (!npcs[j]->isAlive()) continue; ... }\<close>
  called with \<open>j = i + 1\<close>.
\<close>

function battle_inner :: "real \<Rightarrow> nat \<Rightarrow> nat \<Rightarrow> dungeon \<Rightarrow> dungeon" where
  "battle_inner rng i j d =
     (if j < length (npcs d) then
        if \<not> isAlive (npcs d ! j) then battle_inner rng i (j + 1) d
        else battle_inner rng i (j + 1) (accept rng j i (accept rng i j d))
      else d)"
  by pat_completeness auto
termination
proof (relation "measure (\<lambda>(rng, i, j, d). length (npcs d) - j)")
  fix rng :: real and i j :: nat and d :: dungeon
  assume "j < length (npcs d)"
  moreover have "length (npcs (accept rng a b e)) = length (npcs e)" for a b e
    by (simp add: accept_def visit_Princess_def visit_Dragon_def visit_Knight_def onKill_def
        Let_def split: NPCType.split)
  ultimately show "((rng, i, j + 1, accept rng j i (accept rng i j d)), (rng, i, j, d))
      \<in> measure (\<lambda>(rng, i, j, d). length (npcs d) - j)"
    by simp
qed simp_all

text \<open>
  The outer loop:
  \<^verbatim>\<open>for (size_t i = 0; i < npcs.size(); ++i) { if (!npcs[i]->isAlive()) continue; ... }\<close>
\<close>

function battle_outer :: "real \<Rightarrow> nat \<Rightarrow> dungeon \<Rightarrow> dungeon" where
  "battle_outer rng i d =
     (if i < length (npcs d) then
        if \<not> isAlive (npcs d ! i) then battle_outer rng (i + 1) d
        else battle_outer rng (i + 1) (battle_inner rng i (i + 1) d)
      else d)"
  by pat_completeness auto
termination
proof (relation "measure (\<lambda>(rng, i, d). length (npcs d) - i)")
  fix rng :: real and i :: nat and d :: dungeon
  assume "i < length (npcs d)"
  moreover have "length (npcs (accept rng a b e)) = length (npcs e)" for a b e
    by (simp add: accept_def visit_Princess_def visit_Dragon_def visit_Knight_def onKill_def
        Let_def split: NPCType.split)
  then have "length (npcs (battle_inner rng a b e)) = length (npcs e)" for a b e
    by (induction rng a b e rule: battle_inner.induct) (simp split: if_splits)
  ultimately show "((rng, i + 1, battle_inner rng i (i + 1) d), (rng, i, d))
      \<in> measure (\<lambda>(rng, i, d). length (npcs d) - i)"
    by simp
qed simp_all

text \<open>
  \<^verbatim>\<open>Dungeon::battle\<close>: the two loops, then
  \<^verbatim>\<open>npcs.erase(std::remove_if(..., !npc->isAlive()), npcs.end())\<close>, which keeps the
  living objects in their order.
\<close>

definition battle :: "real \<Rightarrow> dungeon \<Rightarrow> dungeon" where
  "battle rng d =
     (let d' = battle_outer rng 0 d
      in d'\<lparr>npcs := filter isAlive (npcs d')\<rparr>)"

section \<open>Factory, add and print (lines 127-134, 160-179)\<close>

text \<open>
  \<^verbatim>\<open>NPCFactory::createNPC\<close>: the switch covers the three enumerators, so the
  \<^verbatim>\<open>return nullptr\<close> after it is never reached; the base-class constructor sets
  \<^verbatim>\<open>alive(true)\<close>.
\<close>

definition createNPC :: "NPCType \<Rightarrow> string \<Rightarrow> int \<Rightarrow> int \<Rightarrow> NPC" where
  "createNPC type name x y =
     \<lparr>getType = type, getName = name, getX = x, getY = y, isAlive = True\<rparr>"

text \<open>\<^verbatim>\<open>Dungeon::addNPC\<close>\<close>

definition addNPC :: "NPCType \<Rightarrow> string \<Rightarrow> int \<Rightarrow> int \<Rightarrow> dungeon \<Rightarrow> dungeon" where
  "addNPC type name x y d =
     (if x < 0 \<or> x > 500 \<or> y < 0 \<or> y > 500 then d\<lparr>console := console d @ [BadCoordinates]\<rparr>
      else d\<lparr>npcs := npcs d @ [createNPC type name x y]\<rparr>)"

text \<open>\<^verbatim>\<open>Dungeon::print\<close>: the loop over the vector, with its \<^verbatim>\<open>continue\<close> for the dead.\<close>

fun print_loop :: "NPC list \<Rightarrow> message list" where
  "print_loop [] = []"
| "print_loop (npc # rest) =
     (if \<not> isAlive npc then print_loop rest
      else NPCLine (getType npc) (getName npc) (getX npc) (getY npc) # print_loop rest)"

definition print :: "dungeon \<Rightarrow> dungeon" where
  "print d = d\<lparr>console := console d @ print_loop (npcs d)\<rparr>"

section \<open>Text streams (the part of the standard library the program uses)\<close>

text \<open>
  An input stream is the text not yet read and the failure state that
  \<^verbatim>\<open>operator bool\<close> tests (\<^verbatim>\<open>!fail()\<close>). The end-of-file flag is not kept: the
  text is finite, so an extraction at its end fails whether or not \<^verbatim>\<open>eofbit\<close> was set
  before. The program never calls \<^verbatim>\<open>clear()\<close>, so a failed stream stays failed.
\<close>

record istream =
  buffer :: string
  failbit :: bool

text \<open>Whitespace of the classic locale: space and the control characters 9 to 13.\<close>

definition isspace :: "char \<Rightarrow> bool" where
  "isspace c \<longleftrightarrow> c = CHR '' '' \<or> (9 :: nat) \<le> of_char c \<and> of_char c \<le> (13 :: nat)"

definition isdigit :: "char \<Rightarrow> bool" where
  "isdigit c \<longleftrightarrow> (48 :: nat) \<le> of_char c \<and> of_char c \<le> (57 :: nat)"

text \<open>
  \<^verbatim>\<open>in >> str\<close> for a \<^verbatim>\<open>std::string\<close>: a failed stream leaves the variable as it
  was; otherwise whitespace is skipped, reaching the end of the text fails, and the
  maximal run of non-whitespace characters is stored.
\<close>

definition extract_string :: "string \<Rightarrow> istream \<Rightarrow> string \<times> istream" where
  "extract_string old s =
     (if failbit s then (old, s)
      else let b = dropWhile isspace (buffer s) in
        if b = [] then (old, \<lparr>buffer = [], failbit = True\<rparr>)
        else (takeWhile (\<lambda>c. \<not> isspace c) b,
              \<lparr>buffer = dropWhile (\<lambda>c. \<not> isspace c) b, failbit = False\<rparr>))"

text \<open>The value of a run of decimal digits.\<close>

definition digits_value :: "string \<Rightarrow> int" where
  "digits_value ds = foldl (\<lambda>acc c. 10 * acc + (int (of_char c) - 48)) 0 ds"

text \<open>
  \<^verbatim>\<open>in >> n\<close> for an \<^verbatim>\<open>int\<close> (32 bits), base 10: a failed stream, or the end of the
  text after the whitespace, leaves the variable as it was; otherwise an optional sign and
  the maximal run of digits are read; no digit stores 0 and fails; a value outside the
  range of \<^verbatim>\<open>int\<close> stores the nearest bound and fails (C++11).
\<close>

definition extract_int :: "int \<Rightarrow> istream \<Rightarrow> int \<times> istream" where
  "extract_int old s =
     (if failbit s then (old, s)
      else let b = dropWhile isspace (buffer s) in
        if b = [] then (old, \<lparr>buffer = [], failbit = True\<rparr>)
        else
          let neg = (hd b = CHR ''-'');
              b' = (if hd b = CHR ''-'' \<or> hd b = CHR ''+'' then tl b else b);
              ds = takeWhile isdigit b';
              rest = dropWhile isdigit b';
              v = (if neg then - digits_value ds else digits_value ds)
          in if ds = [] then (0, \<lparr>buffer = rest, failbit = True\<rparr>)
             else if v < - 2147483648 then (- 2147483648, \<lparr>buffer = rest, failbit = True\<rparr>)
             else if v > 2147483647 then (2147483647, \<lparr>buffer = rest, failbit = True\<rparr>)
             else (v, \<lparr>buffer = rest, failbit = False\<rparr>))"

text \<open>
  \<^verbatim>\<open>out << n\<close> for an \<^verbatim>\<open>int\<close>: the decimal digits, after a minus sign for a
  negative number.
\<close>

definition digit_char :: "nat \<Rightarrow> char" where
  "digit_char k = ''0123456789'' ! k"

fun show_nat :: "nat \<Rightarrow> string" where
  "show_nat n = (if n < 10 then [digit_char n] else show_nat (n div 10) @ [digit_char (n mod 10)])"

definition show_int :: "int \<Rightarrow> string" where
  "show_int i = (if i < 0 then CHR ''-'' # show_nat (nat (- i)) else show_nat (nat i))"

section \<open>Save and load (lines 136-150, 181-201)\<close>

text \<open>
  \<^verbatim>\<open>NPCFactory::loadFromStream\<close>. The two \<^verbatim>\<open>int\<close>s are declared without a value;
  they are read only when all four extractions succeeded, which has assigned both, so
  the initial value given here is never seen.
\<close>

definition loadFromStream :: "istream \<Rightarrow> NPC option \<times> istream" where
  "loadFromStream in0 =
     (let (typeStr, in1) = extract_string [] in0;
          (name, in2) = extract_string [] in1;
          (x, in3) = extract_int 0 in2;
          (y, in4) = extract_int 0 in3
      in if \<not> failbit in4 then
           if typeStr = ''PRINCESS'' \<or> typeStr = ''DRAGON'' \<or> typeStr = ''KNIGHT'' then
             if x < 0 \<or> x > 500 \<or> y < 0 \<or> y > 500 then (None, in4)
             else (Some (createNPC
                    (if typeStr = ''PRINCESS'' then PRINCESS
                     else if typeStr = ''DRAGON'' then DRAGON else KNIGHT) name x y), in4)
           else (None, in4)
         else (None, in4))"

text \<open>
  The files the program can see: the readable files with their contents, and which paths
  can be opened for writing. \<^verbatim>\<open>std::ofstream file(filename)\<close> truncates or creates the
  file when it can be opened, and otherwise every \<^verbatim>\<open><<\<close> on it does nothing;
  \<^verbatim>\<open>std::ifstream file(filename)\<close> on a file that cannot be opened is a failed stream.
\<close>

record filesystem =
  files :: "string \<rightharpoonup> string"
  writable :: "string \<Rightarrow> bool"

definition ifstream :: "filesystem \<Rightarrow> string \<Rightarrow> istream" where
  "ifstream fs filename =
     (case files fs filename of
        None \<Rightarrow> \<lparr>buffer = [], failbit = True\<rparr>
      | Some text \<Rightarrow> \<lparr>buffer = text, failbit = False\<rparr>)"

text \<open>The text \<^verbatim>\<open>Dungeon::saveToFile\<close> sends to its stream.\<close>

fun save_loop :: "NPC list \<Rightarrow> string" where
  "save_loop [] = []"
| "save_loop (npc # rest) =
     (if \<not> isAlive npc then save_loop rest
      else (case getType npc of
              PRINCESS \<Rightarrow> ''PRINCESS ''
            | DRAGON \<Rightarrow> ''DRAGON ''
            | KNIGHT \<Rightarrow> ''KNIGHT '')
           @ getName npc @ '' '' @ show_int (getX npc) @ '' '' @ show_int (getY npc)
           @ [CHR 0x0A] @ save_loop rest)"

text \<open>The line of one living entity, as the body of that loop writes it.\<close>

definition save_line :: "NPC \<Rightarrow> string" where
  "save_line npc =
     (case getType npc of
        PRINCESS \<Rightarrow> ''PRINCESS ''
      | DRAGON \<Rightarrow> ''DRAGON ''
      | KNIGHT \<Rightarrow> ''KNIGHT '')
     @ getName npc @ '' '' @ show_int (getX npc) @ '' '' @ show_int (getY npc) @ [CHR 0x0A]"

definition saveToFile :: "string \<Rightarrow> dungeon \<Rightarrow> filesystem \<Rightarrow> filesystem" where
  "saveToFile filename d fs =
     (if writable fs filename then fs\<lparr>files := (files fs)(filename \<mapsto> save_loop (npcs d))\<rparr>
      else fs)"

text \<open>
  The loop of \<^verbatim>\<open>Dungeon::loadFromFile\<close>:
  \<^verbatim>\<open>while ((npc = NPCFactory::loadFromStream(file))) npcs.push_back(std::move(npc));\<close>
  It ends at the first null pointer \<^verbatim>\<open>loadFromStream\<close> returns.
\<close>

function load_loop :: "istream \<Rightarrow> NPC list \<Rightarrow> NPC list" where
  "load_loop inp acc =
     (case loadFromStream inp of
        (None, inp') \<Rightarrow> acc
      | (Some npc, inp') \<Rightarrow> load_loop inp' (acc @ [npc]))"
  by pat_completeness auto
termination
proof (relation "measure (\<lambda>(inp, acc). length (buffer inp))")
  fix inp :: istream and acc :: "NPC list"
    and o1 :: "NPC option" and inp' :: istream and npc :: NPC
  assume r: "(o1, inp') = loadFromStream inp" "o1 = Some npc"
  have drop_le: "length (dropWhile P xs) \<le> length xs" for P :: "char \<Rightarrow> bool" and xs
    by (induction xs) auto
  have str: "length (buffer (snd (extract_string old s))) \<le> length (buffer s)" for old s
    using drop_le[of "\<lambda>c. \<not> isspace c" "dropWhile isspace (buffer s)"] drop_le[of isspace "buffer s"]
    by (simp add: extract_string_def Let_def)
  have str_lt: "length (buffer (snd (extract_string old s))) < length (buffer s)"
    if "\<not> failbit (snd (extract_string old s))" for old s
  proof -
    let ?b = "dropWhile isspace (buffer s)"
    from that have ne: "?b \<noteq> []" and ok: "\<not> failbit s"
      by (auto simp: extract_string_def Let_def split: if_splits)
    then have "\<not> isspace (hd ?b)" using hd_dropWhile by blast
    then have "dropWhile (\<lambda>c. \<not> isspace c) ?b = dropWhile (\<lambda>c. \<not> isspace c) (tl ?b)"
      using ne by (cases ?b) auto
    then have "length (dropWhile (\<lambda>c. \<not> isspace c) ?b) \<le> length (tl ?b)"
      using drop_le[of "\<lambda>c. \<not> isspace c" "tl ?b"] by simp
    also have "\<dots> < length ?b" using ne by simp
    also have "\<dots> \<le> length (buffer s)" by (rule drop_le)
    finally show ?thesis using ne ok by (auto simp: extract_string_def Let_def)
  qed
  have int_ok: "\<not> failbit s" if "\<not> failbit (snd (extract_int old s))" for old s
    using that by (auto simp: extract_int_def Let_def split: if_splits)
  have str_ok: "\<not> failbit s" if "\<not> failbit (snd (extract_string old s))" for old s
    using that by (auto simp: extract_string_def Let_def split: if_splits)
  have int_le: "length (buffer (snd (extract_int old s))) \<le> length (buffer s)" for old s
  proof -
    let ?b = "dropWhile isspace (buffer s)"
    have "length (dropWhile isdigit (tl ?b)) \<le> length ?b"
      using drop_le[of isdigit "tl ?b"] by simp
    moreover have "length (dropWhile isdigit ?b) \<le> length ?b" by (rule drop_le)
    moreover have "length ?b \<le> length (buffer s)" by (rule drop_le)
    ultimately show ?thesis
      by (simp add: extract_int_def Let_def)
  qed
  define in1 where "in1 = snd (extract_string [] inp)"
  define in2 where "in2 = snd (extract_string [] in1)"
  define in3 where "in3 = snd (extract_int 0 in2)"
  define in4 where "in4 = snd (extract_int 0 in3)"
  from r have "loadFromStream inp = (Some npc, inp')" by simp
  then have "inp' = in4" and "\<not> failbit in4"
    by (auto simp: loadFromStream_def Let_def in1_def in2_def in3_def in4_def
        split: prod.splits if_splits)
  then have "\<not> failbit in1"
    using int_ok str_ok unfolding in4_def in3_def in2_def by blast
  then have "length (buffer in1) < length (buffer inp)"
    unfolding in1_def by (rule str_lt)
  moreover have "length (buffer in4) \<le> length (buffer in1)"
    using int_le[of 0 in3] int_le[of 0 in2] str[of "[]" in1]
    unfolding in4_def in3_def in2_def by linarith
  ultimately show "((inp', acc @ [npc]), (inp, acc)) \<in> measure (\<lambda>(inp, acc). length (buffer inp))"
    using \<open>inp' = in4\<close> by simp
qed simp

text \<open>\<^verbatim>\<open>Dungeon::loadFromFile\<close>: the vector is cleared, then filled by the loop.\<close>

definition loadFromFile :: "string \<Rightarrow> filesystem \<Rightarrow> dungeon \<Rightarrow> dungeon" where
  "loadFromFile filename fs d = d\<lparr>npcs := load_loop (ifstream fs filename) []\<rparr>"

section \<open>The command loop (lines 223-263)\<close>

text \<open>
  \<^verbatim>\<open>std::cin >> range\<close> for a \<^verbatim>\<open>double\<close>, in stages: an optional sign, digits, an
  optional point and digits, and, after at least one digit, an optional exponent (letter,
  optional sign, digits). No digit, or an exponent letter without digits, stores 0 and
  fails; a value that rounds beyond the largest \<^verbatim>\<open>double\<close> stores that bound and
  fails. Otherwise the value stored is the number the text denotes, rounded to binary64.
\<close>

definition signed_digits :: "bool \<Rightarrow> string \<Rightarrow> int" where
  "signed_digits neg ds = (if neg then - digits_value ds else digits_value ds)"

definition scan_sign :: "string \<Rightarrow> bool \<times> string" where
  "scan_sign b =
     (if b \<noteq> [] \<and> (hd b = CHR ''-'' \<or> hd b = CHR ''+'') then (hd b = CHR ''-'', tl b)
      else (False, b))"

definition scan_fraction :: "string \<Rightarrow> string \<times> string" where
  "scan_fraction b =
     (if b \<noteq> [] \<and> hd b = CHR ''.'' then (takeWhile isdigit (tl b), dropWhile isdigit (tl b))
      else ([], b))"

definition scan_exponent :: "string \<Rightarrow> (int option) \<times> string" where
  "scan_exponent b =
     (case scan_sign (tl b) of (eneg, b') \<Rightarrow>
        (if takeWhile isdigit b' = [] then None
         else Some (signed_digits eneg (takeWhile isdigit b')),
         dropWhile isdigit b'))"

text \<open>A mantissa times a power of ten.\<close>

definition scale :: "real \<Rightarrow> int \<Rightarrow> real" where
  "scale m e = (if 0 \<le> e then m * 10 ^ nat e else m / 10 ^ nat (- e))"

definition store_double :: "real \<Rightarrow> string \<Rightarrow> real \<times> istream" where
  "store_double v rest =
     (if 2 ^ 1024 - 2 ^ 970 \<le> \<bar>v\<bar> then
        ((if v < 0 then - 1 else 1) * (2 ^ 1024 - 2 ^ 971), \<lparr>buffer = rest, failbit = True\<rparr>)
      else (binary64 v, \<lparr>buffer = rest, failbit = False\<rparr>))"

definition extract_double :: "real \<Rightarrow> istream \<Rightarrow> real \<times> istream" where
  "extract_double old s =
     (if failbit s then (old, s)
      else if dropWhile isspace (buffer s) = [] then (old, \<lparr>buffer = [], failbit = True\<rparr>)
      else
        case scan_sign (dropWhile isspace (buffer s)) of (neg, b1) \<Rightarrow>
        case scan_fraction (dropWhile isdigit b1) of (fp, b2) \<Rightarrow>
          if takeWhile isdigit b1 @ fp = [] then (0, \<lparr>buffer = b2, failbit = True\<rparr>)
          else if b2 \<noteq> [] \<and> (hd b2 = CHR ''e'' \<or> hd b2 = CHR ''E'') then
            case scan_exponent b2 of
              (None, rest) \<Rightarrow> (0, \<lparr>buffer = rest, failbit = True\<rparr>)
            | (Some e, rest) \<Rightarrow>
                store_double
                  (scale (real_of_int (signed_digits neg (takeWhile isdigit b1 @ fp))
                            / 10 ^ length fp) e) rest
          else
            store_double
              (real_of_int (signed_digits neg (takeWhile isdigit b1 @ fp)) / 10 ^ length fp) b2)"

subsection \<open>An extraction never lengthens the unread text\<close>

lemma scan_sign_shorter: "length (snd (scan_sign b)) \<le> length b"
  by (simp add: scan_sign_def)

lemma length_dropWhile_tl: "length (dropWhile P (tl xs)) \<le> length xs"
  using length_dropWhile_le[of P "tl xs"] by simp

lemma scan_fraction_shorter: "length (snd (scan_fraction b)) \<le> length b"
  by (simp add: scan_fraction_def length_dropWhile_tl)

lemma scan_exponent_shorter: "length (snd (scan_exponent b)) \<le> length b"
proof -
  have "length (dropWhile isdigit (snd (scan_sign (tl b)))) \<le> length (snd (scan_sign (tl b)))"
    by (rule length_dropWhile_le)
  also have "\<dots> \<le> length (tl b)" by (rule scan_sign_shorter)
  also have "\<dots> \<le> length b" by simp
  finally show ?thesis by (simp add: scan_exponent_def case_prod_beta)
qed

lemma buffer_store_double [simp]: "buffer (snd (store_double v rest)) = rest"
  by (simp add: store_double_def)

lemma extract_string_shorter:
  "length (buffer (snd (extract_string old s))) \<le> length (buffer s)"
  using length_dropWhile_le[of "\<lambda>c. \<not> isspace c" "dropWhile isspace (buffer s)"]
    length_dropWhile_le[of isspace "buffer s"]
  by (simp add: extract_string_def Let_def)

lemma extract_string_consumes:
  assumes "\<not> failbit (snd (extract_string old s))"
  shows "length (buffer (snd (extract_string old s))) < length (buffer s)"
proof -
  let ?b = "dropWhile isspace (buffer s)"
  from assms have ne: "?b \<noteq> []" and ok: "\<not> failbit s"
    by (auto simp: extract_string_def Let_def split: if_splits)
  then have "\<not> isspace (hd ?b)" using hd_dropWhile by blast
  then have "dropWhile (\<lambda>c. \<not> isspace c) ?b = dropWhile (\<lambda>c. \<not> isspace c) (tl ?b)"
    using ne by (cases ?b) auto
  then have "length (dropWhile (\<lambda>c. \<not> isspace c) ?b) \<le> length (tl ?b)"
    using length_dropWhile_le[of "\<lambda>c. \<not> isspace c" "tl ?b"] by simp
  also have "\<dots> < length ?b" using ne by simp
  also have "\<dots> \<le> length (buffer s)" by (rule length_dropWhile_le)
  finally show ?thesis using ne ok by (auto simp: extract_string_def Let_def)
qed

lemma extract_int_shorter:
  "length (buffer (snd (extract_int old s))) \<le> length (buffer s)"
proof -
  let ?b = "dropWhile isspace (buffer s)"
  have "length (dropWhile isdigit (tl ?b)) \<le> length ?b" by (rule length_dropWhile_tl)
  moreover have "length (dropWhile isdigit ?b) \<le> length ?b" by (rule length_dropWhile_le)
  moreover have "length ?b \<le> length (buffer s)" by (rule length_dropWhile_le)
  ultimately show ?thesis
    by (simp add: extract_int_def Let_def)
qed

lemma extract_double_shorter:
  "length (buffer (snd (extract_double old s))) \<le> length (buffer s)"
proof (cases "failbit s \<or> dropWhile isspace (buffer s) = []")
  case True
  then show ?thesis by (auto simp: extract_double_def)
next
  case False
  let ?b = "dropWhile isspace (buffer s)"
  let ?b1 = "snd (scan_sign ?b)"
  let ?b2 = "snd (scan_fraction (dropWhile isdigit ?b1))"
  let ?b3 = "snd (scan_exponent ?b2)"
  have "length ?b \<le> length (buffer s)" by (rule length_dropWhile_le)
  moreover have "length ?b1 \<le> length ?b" by (rule scan_sign_shorter)
  moreover have "length (dropWhile isdigit ?b1) \<le> length ?b1" by (rule length_dropWhile_le)
  moreover have "length ?b2 \<le> length (dropWhile isdigit ?b1)" by (rule scan_fraction_shorter)
  moreover have "length ?b3 \<le> length ?b2" by (rule scan_exponent_shorter)
  ultimately have le: "length ?b2 \<le> length (buffer s)" "length ?b3 \<le> length (buffer s)"
    by linarith+
  have "buffer (snd (extract_double old s)) = ?b2 \<or> buffer (snd (extract_double old s)) = ?b3"
    using False
    by (simp add: extract_double_def case_prod_beta del: dropWhile_eq_Nil_conv split: option.splits)
  with le show ?thesis by auto
qed


subsection \<open>The loop\<close>

text \<open>
  How the loop ended: \<^verbatim>\<open>break\<close> at the command \<^verbatim>\<open>exit\<close>, or the condition
  \<^verbatim>\<open>std::cin >> command\<close> failed, either because only whitespace was left before the
  end of the input or because the stream had failed before (an earlier extraction of an
  argument failed, and nothing clears the failure).
\<close>

datatype ending = ExitCommand | EndOfInput | FailedStream

text \<open>
  What \<^verbatim>\<open>main\<close> works on: its \<^verbatim>\<open>Dungeon dungeon\<close> (with the console output),
  standard input, and the files.
\<close>

record world =
  dungeon :: dungeon
  cin :: istream
  disk :: filesystem

text \<open>\<^verbatim>\<open>std::cout << ...\<close> in \<^verbatim>\<open>main\<close>.\<close>

definition cout :: "message \<Rightarrow> world \<Rightarrow> world" where
  "cout m w = w\<lparr>dungeon := (dungeon w)\<lparr>console := console (dungeon w) @ [m]\<rparr>\<rparr>"

text \<open>
  The branches of the loop body that read arguments. \<^verbatim>\<open>int x, y;\<close> and
  \<^verbatim>\<open>double range;\<close> are declared without a value: \<open>ux\<close>, \<open>uy\<close> and \<open>ur\<close> stand for
  whatever they hold when an extraction leaves them untouched (the stream had failed, or
  the input ended before the argument). The two strings start empty.
\<close>

definition add_command :: "int \<Rightarrow> int \<Rightarrow> world \<Rightarrow> world" where
  "add_command ux uy w =
     (case extract_string [] (cin w) of (type, c1) \<Rightarrow>
      case extract_string [] c1 of (name, c2) \<Rightarrow>
      case extract_int ux c2 of (x, c3) \<Rightarrow>
      case extract_int uy c3 of (y, c4) \<Rightarrow>
        if type = ''princess'' then w\<lparr>cin := c4, dungeon := addNPC PRINCESS name x y (dungeon w)\<rparr>
        else if type = ''dragon'' then w\<lparr>cin := c4, dungeon := addNPC DRAGON name x y (dungeon w)\<rparr>
        else if type = ''knight'' then w\<lparr>cin := c4, dungeon := addNPC KNIGHT name x y (dungeon w)\<rparr>
        else cout UnknownNPC (w\<lparr>cin := c4\<rparr>))"

definition save_command :: "world \<Rightarrow> world" where
  "save_command w =
     (case extract_string [] (cin w) of (filename, c1) \<Rightarrow>
        w\<lparr>cin := c1, disk := saveToFile filename (dungeon w) (disk w)\<rparr>)"

definition load_command :: "world \<Rightarrow> world" where
  "load_command w =
     (case extract_string [] (cin w) of (filename, c1) \<Rightarrow>
        w\<lparr>cin := c1, dungeon := loadFromFile filename (disk w) (dungeon w)\<rparr>)"

definition battle_command :: "real \<Rightarrow> world \<Rightarrow> world" where
  "battle_command ur w =
     (case extract_double ur (cin w) of (rng, c1) \<Rightarrow>
        w\<lparr>cin := c1, dungeon := battle rng (dungeon w)\<rparr>)"

lemma cin_cout [simp]: "cin (cout m w) = cin w"
  by (simp add: cout_def)

lemma add_command_shorter: "length (buffer (cin (add_command ux uy w))) \<le> length (buffer (cin w))"
proof -
  let ?c1 = "snd (extract_string [] (cin w))"
  let ?c2 = "snd (extract_string [] ?c1)"
  let ?c3 = "snd (extract_int ux ?c2)"
  let ?c4 = "snd (extract_int uy ?c3)"
  have "cin (add_command ux uy w) = ?c4"
    by (simp add: add_command_def case_prod_beta)
  moreover have "length (buffer ?c4) \<le> length (buffer (cin w))"
    using extract_string_shorter[of "[]" "cin w"] extract_string_shorter[of "[]" ?c1]
      extract_int_shorter[of ux ?c2] extract_int_shorter[of uy ?c3]
    by linarith
  ultimately show ?thesis by simp
qed

lemma save_command_shorter: "length (buffer (cin (save_command w))) \<le> length (buffer (cin w))"
  using extract_string_shorter[of "[]" "cin w"] by (simp add: save_command_def case_prod_beta)

lemma load_command_shorter: "length (buffer (cin (load_command w))) \<le> length (buffer (cin w))"
  using extract_string_shorter[of "[]" "cin w"] by (simp add: load_command_def case_prod_beta)

lemma battle_command_shorter: "length (buffer (cin (battle_command ur w))) \<le> length (buffer (cin w))"
  using extract_double_shorter[of ur "cin w"] by (simp add: battle_command_def case_prod_beta)

lemma command_read_consumes:
  "(command, c1) = extract_string [] c \<Longrightarrow> \<not> failbit c1 \<Longrightarrow> length (buffer c1) < length (buffer c)"
  using extract_string_consumes[of "[]" c] by (metis snd_conv)

text \<open>
  \<^verbatim>\<open>while (std::cout << "..." && std::cin >> command) { ... }\<close>: the prompt is written
  (writing to standard output is taken to succeed), the command is read, and the chain of
  comparisons picks the branch.
\<close>

function main_loop :: "int \<Rightarrow> int \<Rightarrow> real \<Rightarrow> world \<Rightarrow> ending \<times> world" where
  "main_loop ux uy ur w =
     (let w0 = cout Prompt w in
      case extract_string [] (cin w0) of (command, c1) \<Rightarrow>
        if failbit c1 then
          (if failbit (cin w0) then FailedStream else EndOfInput, w0\<lparr>cin := c1\<rparr>)
        else if command = ''add'' then
          main_loop ux uy ur (add_command ux uy (w0\<lparr>cin := c1\<rparr>))
        else if command = ''print'' then
          main_loop ux uy ur (w0\<lparr>cin := c1, dungeon := print (dungeon w0)\<rparr>)
        else if command = ''save'' then
          main_loop ux uy ur (save_command (w0\<lparr>cin := c1\<rparr>))
        else if command = ''load'' then
          main_loop ux uy ur (load_command (w0\<lparr>cin := c1\<rparr>))
        else if command = ''battle'' then
          main_loop ux uy ur (battle_command ur (w0\<lparr>cin := c1\<rparr>))
        else if command = ''exit'' then (ExitCommand, w0\<lparr>cin := c1\<rparr>)
        else main_loop ux uy ur (cout UnknownCommand (w0\<lparr>cin := c1\<rparr>)))"
  by pat_completeness auto
termination
proof (relation "measure (\<lambda>(ux, uy, ur, w). length (buffer (cin w)))", goal_cases)
  case 1
  show ?case by simp
next
  case (2 ux uy ur w w0 command c1)
  then show ?case
    using command_read_consumes[of command c1 "cin w"] add_command_shorter[of ux uy "w0\<lparr>cin := c1\<rparr>"]
    by simp
next
  case (3 ux uy ur w w0 command c1)
  then show ?case
    using command_read_consumes[of command c1 "cin w"] by simp
next
  case (4 ux uy ur w w0 command c1)
  then show ?case
    using command_read_consumes[of command c1 "cin w"] save_command_shorter[of "w0\<lparr>cin := c1\<rparr>"]
    by simp
next
  case (5 ux uy ur w w0 command c1)
  then show ?case
    using command_read_consumes[of command c1 "cin w"] load_command_shorter[of "w0\<lparr>cin := c1\<rparr>"]
    by simp
next
  case (6 ux uy ur w w0 command c1)
  then show ?case
    using command_read_consumes[of command c1 "cin w"] battle_command_shorter[of ur "w0\<lparr>cin := c1\<rparr>"]
    by simp
next
  case (7 ux uy ur w w0 command c1)
  then show ?case
    using command_read_consumes[of command c1 "cin w"] by simp
qed

text \<open>
  Constructing the \<^verbatim>\<open>Dungeon\<close> constructs its \<^verbatim>\<open>FileObserver\<close>, which opens
  \<^verbatim>\<open>log.txt\<close> for appending: the file is created empty when it does not exist and can
  be written. Nothing is ever written to it, since \<^verbatim>\<open>battle\<close> passes the console
  observer only.
\<close>

definition FileObserver :: "filesystem \<Rightarrow> filesystem" where
  "FileObserver fs =
     (if writable fs ''log.txt'' \<and> files fs ''log.txt'' = None
      then fs\<lparr>files := (files fs)(''log.txt'' \<mapsto> [])\<rparr>
      else fs)"

text \<open>
  \<^verbatim>\<open>main\<close>: an empty dungeon, the loop, \<^verbatim>\<open>return 0\<close>. Its result here is the exit
  code together with how the loop ended and the state it left.
\<close>

record outcome =
  exit_code :: int
  how_ended :: ending
  final_world :: world

definition initial_world :: "string \<Rightarrow> filesystem \<Rightarrow> world" where
  "initial_world stdin fs =
     \<lparr>dungeon = \<lparr>npcs = [], console = []\<rparr>,
      cin = \<lparr>buffer = stdin, failbit = False\<rparr>,
      disk = FileObserver fs\<rparr>"

definition main :: "int \<Rightarrow> int \<Rightarrow> real \<Rightarrow> string \<Rightarrow> filesystem \<Rightarrow> outcome" where
  "main ux uy ur stdin fs =
     (case main_loop ux uy ur (initial_world stdin fs) of
        (e, w) \<Rightarrow> \<lparr>exit_code = 0, how_ended = e, final_world = w\<rparr>)"

text \<open>
  No token is left on a stream: only whitespace remains. This is what "the input stream
  is exhausted" means for a loop that reads whitespace-delimited tokens.
\<close>

definition input_exhausted :: "istream \<Rightarrow> bool" where
  "input_exhausted s \<longleftrightarrow> list_all isspace (buffer s)"

subsection \<open>The iterations of the loop, one by one\<close>

text \<open>
  The loop goes on after an iteration when the condition \<^verbatim>\<open>std::cin >> command\<close> held
  and the command was not \<^verbatim>\<open>exit\<close>: these are the two ways out of the \<^verbatim>\<open>while\<close>,
  its condition and its only \<^verbatim>\<open>break\<close>.
\<close>

definition continues :: "world \<Rightarrow> bool" where
  "continues w \<longleftrightarrow>
     \<not> failbit (snd (extract_string [] (cin w))) \<and> fst (extract_string [] (cin w)) \<noteq> ''exit''"

text \<open>
  What one iteration that goes on does to the state: the prompt, the read of the command
  and the branch of the body for that command.
\<close>

definition next_state :: "int \<Rightarrow> int \<Rightarrow> real \<Rightarrow> world \<Rightarrow> world" where
  "next_state ux uy ur w =
     (let w0 = cout Prompt w in
      case extract_string [] (cin w0) of (command, c1) \<Rightarrow>
        if command = ''add'' then add_command ux uy (w0\<lparr>cin := c1\<rparr>)
        else if command = ''print'' then w0\<lparr>cin := c1, dungeon := print (dungeon w0)\<rparr>
        else if command = ''save'' then save_command (w0\<lparr>cin := c1\<rparr>)
        else if command = ''load'' then load_command (w0\<lparr>cin := c1\<rparr>)
        else if command = ''battle'' then battle_command ur (w0\<lparr>cin := c1\<rparr>)
        else cout UnknownCommand (w0\<lparr>cin := c1\<rparr>))"

text \<open>The state in which the loop is left by an iteration that ends it.\<close>

definition stop_state :: "world \<Rightarrow> world" where
  "stop_state w = (cout Prompt w)\<lparr>cin := snd (extract_string [] (cin w))\<rparr>"

text \<open>The state at the start of iteration \<open>k\<close> (counted from 0), if the loop gets there.\<close>

fun state_at :: "int \<Rightarrow> int \<Rightarrow> real \<Rightarrow> nat \<Rightarrow> world \<Rightarrow> world" where
  "state_at ux uy ur 0 w = w"
| "state_at ux uy ur (Suc k) w = state_at ux uy ur k (next_state ux uy ur w)"

section \<open>Definitions that follow the specification, and concrete inputs\<close>

text \<open>
  The rule table in the words of the specification (section 4.3): Dragon kills Princess,
  Knight kills Dragon, every other ordered pair has no effect. It is compared with the
  visitor's three overloads in \<open>accept_eq\<close> below.
\<close>

definition rule_table :: "NPCType \<Rightarrow> NPCType \<Rightarrow> bool" where
  "rule_table killer victim \<longleftrightarrow>
     killer = DRAGON \<and> victim = PRINCESS \<or> killer = KNIGHT \<and> victim = DRAGON"

text \<open>Registries used as concrete inputs below.\<close>

definition two_knights :: dungeon where
  "two_knights = \<lparr>npcs =
      [\<lparr>getType = KNIGHT, getName = ''A'', getX = 7, getY = 7, isAlive = True\<rparr>,
       \<lparr>getType = KNIGHT, getName = ''B'', getX = 7, getY = 8, isAlive = True\<rparr>],
      console = []\<rparr>"


definition dead_dragon_and_princess :: dungeon where
  "dead_dragon_and_princess = \<lparr>npcs =
      [\<lparr>getType = DRAGON, getName = ''Dr'', getX = 0, getY = 0, isAlive = False\<rparr>,
       \<lparr>getType = PRINCESS, getName = ''Pr'', getX = 0, getY = 0, isAlive = True\<rparr>],
      console = []\<rparr>"

definition dragon_knight_princess :: dungeon where
  "dragon_knight_princess = \<lparr>npcs =
      [\<lparr>getType = DRAGON, getName = ''Dr'', getX = 0, getY = 0, isAlive = True\<rparr>,
       \<lparr>getType = KNIGHT, getName = ''K'', getX = 0, getY = 0, isAlive = True\<rparr>,
       \<lparr>getType = PRINCESS, getName = ''Pr'', getX = 0, getY = 0, isAlive = True\<rparr>],
      console = []\<rparr>"

definition dragon_princess_2_3 :: dungeon where
  "dragon_princess_2_3 = \<lparr>npcs =
      [\<lparr>getType = DRAGON, getName = ''D'', getX = 0, getY = 0, isAlive = True\<rparr>,
       \<lparr>getType = PRINCESS, getName = ''P'', getX = 2, getY = 3, isAlive = True\<rparr>],
      console = []\<rparr>"

section \<open>Entities the save format can hold\<close>

text \<open>
  An entity whose line \<^verbatim>\<open>saveToFile\<close> writes is read back as written: its name is a
  token (not empty, no whitespace) and its coordinates pass the range check of
  \<^verbatim>\<open>loadFromStream\<close>. \<^verbatim>\<open>addNPC\<close> and \<^verbatim>\<open>loadFromStream\<close> admit no other
  coordinates, and a name read by \<^verbatim>\<open>>>\<close> is such a token.
\<close>

definition saveable :: "NPC \<Rightarrow> bool" where
  "saveable n \<longleftrightarrow> getName n \<noteq> [] \<and> list_all (\<lambda>c. \<not> isspace c) (getName n)
     \<and> 0 \<le> getX n \<and> getX n \<le> 500 \<and> 0 \<le> getY n \<and> getY n \<le> 500"

text \<open>The keyword of a kind in the file, without the space \<^verbatim>\<open>saveToFile\<close> writes after it.\<close>

definition keyword :: "NPCType \<Rightarrow> string" where
  "keyword t = (case t of PRINCESS \<Rightarrow> ''PRINCESS'' | DRAGON \<Rightarrow> ''DRAGON'' | KNIGHT \<Rightarrow> ''KNIGHT'')"

text \<open>
  The command loop keeps this: as long as standard input has not failed, every entity of
  the registry can be saved. (After a failure the loop reads no further command.)
\<close>

definition registry_saveable :: "world \<Rightarrow> bool" where
  "registry_saveable w \<longleftrightarrow> failbit (cin w) \<or> list_all saveable (npcs (dungeon w))"

text \<open>Files and registries used as concrete inputs below.\<close>

definition all_writable :: "(string \<rightharpoonup> string) \<Rightarrow> filesystem" where
  "all_writable fm = \<lparr>files = fm, writable = (\<lambda>_. True)\<rparr>"

definition knight_a :: NPC where
  "knight_a = \<lparr>getType = KNIGHT, getName = ''a'', getX = 1, getY = 2, isAlive = True\<rparr>"

definition nameless_knight :: dungeon where
  "nameless_knight = \<lparr>npcs =
      [\<lparr>getType = KNIGHT, getName = [], getX = 1, getY = 2, isAlive = True\<rparr>], console = []\<rparr>"

definition good_then_bad :: string where
  "good_then_bad = ''KNIGHT a 1 2'' @ [CHR 0x0A] @ ''DRAGON b 501 3'' @ [CHR 0x0A]"

definition bad_then_good :: string where
  "bad_then_good = ''DRAGON b 501 3'' @ [CHR 0x0A] @ ''KNIGHT a 1 2'' @ [CHR 0x0A]"

definition unknown_kind_then_good :: string where
  "unknown_kind_then_good = ''dragon b 5 3'' @ [CHR 0x0A] @ ''KNIGHT a 1 2'' @ [CHR 0x0A]"

definition malformed_then_good :: string where
  "malformed_then_good = ''DRAGON b five 3'' @ [CHR 0x0A] @ ''KNIGHT a 1 2'' @ [CHR 0x0A]"

definition knight_dead_dragon_princess :: dungeon where
  "knight_dead_dragon_princess = \<lparr>npcs =
      [\<lparr>getType = KNIGHT, getName = ''K'', getX = 1, getY = 2, isAlive = True\<rparr>,
       \<lparr>getType = DRAGON, getName = ''old dragon'', getX = 500, getY = 0, isAlive = False\<rparr>,
       \<lparr>getType = PRINCESS, getName = ''Pr'', getX = 0, getY = 500, isAlive = True\<rparr>],
      console = []\<rparr>"

section \<open>Sequences of registry operations\<close>

text \<open>
  The public operations of \<^verbatim>\<open>Dungeon\<close>, as \<^verbatim>\<open>main\<close> calls them, run on a dungeon
  and the files.
\<close>

datatype operation =
    Add NPCType string int int
  | Print
  | Save string
  | Load string
  | Battle real

fun exec_op :: "operation \<Rightarrow> dungeon \<times> filesystem \<Rightarrow> dungeon \<times> filesystem" where
  "exec_op (Add type name x y) (d, fs) = (addNPC type name x y d, fs)"
| "exec_op Print (d, fs) = (print d, fs)"
| "exec_op (Save filename) (d, fs) = (d, saveToFile filename d fs)"
| "exec_op (Load filename) (d, fs) = (loadFromFile filename fs d, fs)"
| "exec_op (Battle rng) (d, fs) = (battle rng d, fs)"

fun exec_ops :: "operation list \<Rightarrow> dungeon \<times> filesystem \<Rightarrow> dungeon \<times> filesystem" where
  "exec_ops [] s = s"
| "exec_ops (op # ops) s = exec_ops ops (exec_op op s)"

text \<open>
  Where the entity at index \<open>k\<close> is after an operation, if it still exists. The
  specification identifies an entity by its index in the registry; the vector keeps the
  order of its elements, so \<^verbatim>\<open>push_back\<close> leaves every index as it is, the purge at the
  end of \<open>battle\<close> moves a survivor down by the number of dead entities before it and
  destroys the dead, and \<^verbatim>\<open>npcs.clear()\<close> in \<open>loadFromFile\<close> destroys every entity.
\<close>

fun position_after :: "operation \<Rightarrow> dungeon \<Rightarrow> nat \<Rightarrow> nat option" where
  "position_after (Battle rng) d k =
     (if isAlive (npcs (battle_outer rng 0 d) ! k)
      then Some (length (filter isAlive (take k (npcs (battle_outer rng 0 d)))))
      else None)"
| "position_after (Load filename) d k = None"
| "position_after (Add type name x y) d k = Some k"
| "position_after Print d k = Some k"
| "position_after (Save filename) d k = Some k"

fun position_after_all :: "operation list \<Rightarrow> dungeon \<times> filesystem \<Rightarrow> nat \<Rightarrow> nat option" where
  "position_after_all [] s k = Some k"
| "position_after_all (op # ops) s k =
     (case position_after op (fst s) k of
        None \<Rightarrow> None
      | Some k' \<Rightarrow> position_after_all ops (exec_op op s) k')"

text \<open>
  The later state of an entity has the kind, name and coordinates of the earlier one, and
  is alive only if the earlier one was.
\<close>

definition unchanged_but_alive :: "NPC \<Rightarrow> NPC \<Rightarrow> bool" where
  "unchanged_but_alive before after \<longleftrightarrow>
     getType after = getType before \<and> getName after = getName before
     \<and> getX after = getX before \<and> getY after = getY before
     \<and> (isAlive after \<longrightarrow> isAlive before)"

definition battle_add_print :: "operation list" where
  "battle_add_print = [Battle 0, Add PRINCESS ''Q'' 9 9, Print]"

section \<open>Basic facts about the battle pass\<close>

lemma round_half_even_of_int [simp]: "round_half_even (of_int m) = m"
  by (simp add: round_half_even_def)

lemma round_half_even_near:
  "of_int n - 1 / 2 < q \<Longrightarrow> q < of_int n + 1 / 2 \<Longrightarrow> round_half_even q = n"
proof -
  assume a: "of_int n - 1 / 2 < q" "q < of_int n + 1 / 2"
  have "q < of_int n + 1" "of_int (n - 1) \<le> q" using a by simp_all
  then have "\<lfloor>q\<rfloor> \<le> n" "n - 1 \<le> \<lfloor>q\<rfloor>"
    by (simp_all only: floor_le_iff le_floor_iff)
  then have "\<lfloor>q\<rfloor> < n + 1" "n - 1 \<le> \<lfloor>q\<rfloor>" by simp_all
  moreover note this(2)
  ultimately have "\<lfloor>q\<rfloor> = n \<or> \<lfloor>q\<rfloor> = n - 1" by linarith
  then show ?thesis
  proof
    assume f: "\<lfloor>q\<rfloor> = n"
    then show ?thesis using a by (simp add: round_half_even_def)
  next
    assume f: "\<lfloor>q\<rfloor> = n - 1"
    then show ?thesis using a by (simp add: round_half_even_def)
  qed
qed

lemma binary64_exact:
  assumes "x \<noteq> 0" "x / 2 powr of_int (max \<lfloor>log 2 \<bar>x\<bar>\<rfloor> (- 1022) - 52) = of_int m"
  shows "binary64 x = x"
proof -
  let ?p = "2 powr of_int (max \<lfloor>log 2 \<bar>x\<bar>\<rfloor> (- 1022) - 52) :: real"
  have "?p \<noteq> 0" by simp
  have "binary64 x = of_int m * ?p"
    using assms by (simp add: binary64_def)
  also have "\<dots> = x / ?p * ?p" by (simp only: assms(2))
  also have "\<dots> = x" by simp
  finally show ?thesis .
qed

lemma binary64_of_int:
  assumes "\<bar>n\<bar> < 2 ^ 53"
  shows "binary64 (of_int n) = of_int n"
proof (cases "n = 0")
  case True
  then show ?thesis by (simp add: binary64_def)
next
  case False
  let ?x = "of_int n :: real"
  have ge1: "1 \<le> \<bar>?x\<bar>" using False by (simp flip: of_int_abs)
  then have l0: "0 \<le> \<lfloor>log 2 \<bar>?x\<bar>\<rfloor>" by simp
  have "\<bar>?x\<bar> < 2 ^ 53" using assms by (simp flip: of_int_abs)
  then have "log 2 \<bar>?x\<bar> < log 2 (2 ^ 53)"
    using ge1 by (subst log_less_cancel_iff) simp_all
  also have "log 2 (2 ^ 53) = (53::real)"
    by (subst log_pow_cancel) simp_all
  finally have "log 2 \<bar>?x\<bar> < 53" .
  then have l53: "\<lfloor>log 2 \<bar>?x\<bar>\<rfloor> \<le> 52" by linarith
  define j where "j = nat (52 - \<lfloor>log 2 \<bar>?x\<bar>\<rfloor>)"
  have e: "max \<lfloor>log 2 \<bar>?x\<bar>\<rfloor> (- 1022) - 52 = - int j"
    using l0 l53 by (simp add: j_def)
  have p: "2 powr of_int (- int j) = 1 / (2::real) ^ j"
    by (simp add: powr_minus powr_realpow field_simps)
  have "?x / 2 powr of_int (max \<lfloor>log 2 \<bar>?x\<bar>\<rfloor> (- 1022) - 52) = of_int (n * 2 ^ j)"
    by (simp only: e p) simp
  then show ?thesis
    using False by (intro binary64_exact[where m = "n * 2 ^ j"]) (simp_all only: of_int_eq_0_iff not_False_eq_True)
qed


lemma binary64_near:
  assumes "2 ^ k \<le> x" "x < 2 ^ Suc k" "k \<le> 52"
    "of_int n - 1 / 2 < x * 2 ^ (52 - k)" "x * 2 ^ (52 - k) < of_int n + 1 / 2"
  shows "binary64 x = of_int n / 2 ^ (52 - k)"
proof -
  have "(0::real) < 2 ^ k" by simp
  with assms(1) have pos: "0 < x" by linarith
  then have nz: "x \<noteq> 0" by simp
  have "2 powr real_of_int (int k) \<le> x \<and> x < 2 powr real_of_int (int k + 1)"
    using assms(1,2) by (simp add: powr_realpow powr_add)
  then have fl: "\<lfloor>log 2 \<bar>x\<bar>\<rfloor> = int k"
    using pos by (subst floor_log_eq_powr_iff) simp_all
  define P :: real where "P = 2 powr of_int (max \<lfloor>log 2 \<bar>x\<bar>\<rfloor> (- 1022) - 52)"
  have e: "max \<lfloor>log 2 \<bar>x\<bar>\<rfloor> (- 1022) - 52 = - int (52 - k)"
    using assms(3) by (simp add: fl)
  have "P = 2 powr of_int (- int (52 - k))"
    unfolding P_def by (simp only: e)
  also have "\<dots> = 1 / (2::real) ^ (52 - k)"
    by (simp add: powr_minus powr_realpow field_simps)
  finally have P: "P = 1 / 2 ^ (52 - k)" .
  have b: "binary64 x = of_int (round_half_even (x / P)) * P"
    unfolding binary64_def P_def using nz by (rule if_not_P)
  have "x / P = x * 2 ^ (52 - k)" by (simp add: P)
  then have "round_half_even (x / P) = n"
    using assms(4,5) by (intro round_half_even_near) simp_all
  then show ?thesis by (simp add: b) (simp add: P)
qed

lemma binary64_sqrt_13: "binary64 (sqrt 13) = 8118979690322419 / 2 ^ 51"
proof -
  define c :: real where "c = 2 ^ 51"
  have c: "c = 2 ^ (52 - 1)" by (simp add: c_def)
  have lo: "(2::real) ^ 1 \<le> sqrt 13" by (rule real_le_rsqrt) simp
  have hi: "sqrt 13 < (2::real) ^ Suc 1" by (rule real_less_lsqrt) simp_all
  have "sqrt (13 * c\<^sup>2) = sqrt 13 * sqrt (c\<^sup>2)" by (rule real_sqrt_mult)
  also have "sqrt (c\<^sup>2) = \<bar>c\<bar>" by (rule real_sqrt_abs)
  also have "\<bar>c\<bar> = c" by (simp add: c_def)
  finally have s: "sqrt (13 * c\<^sup>2) = sqrt 13 * c" .
  have "real_of_int 8118979690322419 - 1 / 2 < sqrt (13 * c\<^sup>2)"
    by (rule real_less_rsqrt) (simp add: c_def power2_eq_square field_simps)
  then have "real_of_int 8118979690322419 - 1 / 2 < sqrt 13 * c"
    by (simp only: s)
  then have a: "real_of_int 8118979690322419 - 1 / 2 < sqrt 13 * 2 ^ (52 - 1)"
    by (simp only: c)
  have "sqrt (13 * c\<^sup>2) < real_of_int 8118979690322419 + 1 / 2"
    by (rule real_less_lsqrt) (simp_all add: c_def power2_eq_square field_simps)
  then have "sqrt 13 * c < real_of_int 8118979690322419 + 1 / 2"
    by (simp only: s)
  then have b: "sqrt 13 * 2 ^ (52 - 1) < real_of_int 8118979690322419 + 1 / 2"
    by (simp only: c)
  from binary64_near[OF lo hi _ a b] show ?thesis by simp
qed

lemma binary64_below_1:
  assumes "1 / 2 \<le> x" "x < 1" "of_int n - 1 / 2 < x * 2 ^ 53" "x * 2 ^ 53 < of_int n + 1 / 2"
  shows "binary64 x = of_int n / 2 ^ 53"
proof -
  have pos: "0 < x" using assms(1) by linarith
  then have nz: "x \<noteq> 0" by simp
  have "2 powr real_of_int (- 1) \<le> x \<and> x < 2 powr real_of_int (- 1 + 1)"
    using assms(1,2) by (simp add: powr_minus_divide)
  then have fl: "\<lfloor>log 2 \<bar>x\<bar>\<rfloor> = - 1"
    using pos by (subst floor_log_eq_powr_iff) simp_all
  define P :: real where "P = 2 powr of_int (max \<lfloor>log 2 \<bar>x\<bar>\<rfloor> (- 1022) - 52)"
  have e: "max \<lfloor>log 2 \<bar>x\<bar>\<rfloor> (- 1022) - 52 = - int 53"
    by (simp add: fl)
  have "P = 2 powr of_int (- int 53)"
    unfolding P_def by (simp only: e)
  also have "\<dots> = 1 / (2::real) ^ 53"
    by (simp add: powr_minus_divide)
  finally have P: "P = 1 / 2 ^ 53" .
  have b: "binary64 x = of_int (round_half_even (x / P)) * P"
    unfolding binary64_def P_def using nz by (rule if_not_P)
  have "x / P = x * 2 ^ 53" by (simp add: P)
  then have "round_half_even (x / P) = n"
    using assms(3,4) by (intro round_half_even_near) simp_all
  then show ?thesis by (simp add: b) (simp add: P)
qed

lemma binary64_0 [simp]: "binary64 0 = 0"
  by (simp add: binary64_def)

lemma binary64_1 [simp]: "binary64 1 = 1"
  using binary64_of_int[of 1] by simp

lemma binary64_numeral: "\<bar>numeral k :: int\<bar> < 2 ^ 53 \<Longrightarrow> binary64 (numeral k) = numeral k"
  using binary64_of_int[of "numeral k"] by simp

lemma sqrt_25: "sqrt 25 = 5"
  by (rule real_sqrt_unique) simp_all

text \<open>
  Where the sum of the squares is a square, of numbers below \<open>2^26\<close>, nothing is rounded.
\<close>

lemma distanceTo_exact:
  assumes "(getX a - getX b)\<^sup>2 + (getY a - getY b)\<^sup>2 = m\<^sup>2" "0 \<le> m" "m < 2 ^ 26"
  shows "distanceTo a b = of_int m"
proof -
  let ?dx = "getX a - getX b" and ?dy = "getY a - getY b"
  have m2: "m\<^sup>2 < 2 ^ 53"
  proof -
    have "m * m \<le> m * 2 ^ 26" using assms(2,3) by (intro mult_left_mono) simp_all
    also have "\<dots> \<le> 2 ^ 26 * 2 ^ 26" using assms(3) by simp
    finally show ?thesis by (simp add: power2_eq_square)
  qed
  have "?dx\<^sup>2 \<le> m\<^sup>2" "?dy\<^sup>2 \<le> m\<^sup>2"
    using assms(1) zero_le_power2[of ?dx] zero_le_power2[of ?dy] by linarith+
  then have small: "\<bar>?dx\<^sup>2\<bar> < 2 ^ 53" "\<bar>?dy\<^sup>2\<bar> < 2 ^ 53" "\<bar>m\<^sup>2\<bar> < 2 ^ 53" "\<bar>m\<bar> < 2 ^ 53"
    using m2 assms(2,3) by simp_all
  have px: "(real_of_int ?dx)\<^sup>2 = real_of_int (?dx\<^sup>2)"
    and py: "(real_of_int ?dy)\<^sup>2 = real_of_int (?dy\<^sup>2)"
    by (simp_all only: of_int_power)
  have eq: "real_of_int (?dx\<^sup>2) + real_of_int (?dy\<^sup>2) = real_of_int (m\<^sup>2)"
    by (simp only: assms(1)[symmetric] of_int_add)
  have root: "sqrt (real_of_int (m\<^sup>2)) = of_int m"
    using assms(2) by (intro real_sqrt_unique) (simp_all only: of_int_power of_int_0_le_iff)
  show ?thesis
    unfolding distanceTo_def
    by (simp only: px py binary64_of_int[OF small(1)] binary64_of_int[OF small(2)] eq
        binary64_of_int[OF small(3)] root binary64_of_int[OF small(4)])
qed

lemmas distance_eval = distanceTo_def binary64_numeral sqrt_25

lemmas battle_eval = battle_def accept_def visit_Princess_def visit_Dragon_def visit_Knight_def
  onKill_def markDead_def distance_eval Let_def

declare battle_inner.simps [simp del] battle_outer.simps [simp del]

lemma length_accept [simp]: "length (npcs (accept rng self other d)) = length (npcs d)"
  by (simp add: accept_def visit_Princess_def visit_Dragon_def visit_Knight_def onKill_def
      Let_def split: NPCType.split)

lemma length_battle_inner [simp]: "length (npcs (battle_inner rng i j d)) = length (npcs d)"
proof (induction rng i j d rule: battle_inner.induct)
  case (1 rng i j d)
  then show ?case
    by (subst battle_inner.simps) simp
qed

lemma length_battle_outer [simp]: "length (npcs (battle_outer rng i d)) = length (npcs d)"
proof (induction rng i d rule: battle_outer.induct)
  case (1 rng i d)
  then show ?case
    by (subst battle_outer.simps) simp
qed

text \<open>What one visit does, in one equation: the three overloads implement the rule table.\<close>

lemma accept_eq:
  "accept rng self other d =
     (if isAlive (npcs d ! other) \<and> distanceTo (npcs d ! self) (npcs d ! other) \<le> rng
         \<and> rule_table (getType (npcs d ! self)) (getType (npcs d ! other))
      then d\<lparr>npcs := (npcs d)[other := markDead (npcs d ! other)],
             console := console d @
               [KillLine (getName ((npcs d)[other := markDead (npcs d ! other)] ! self))
                         (getName ((npcs d)[other := markDead (npcs d ! other)] ! other))]\<rparr>
      else d)"
  by (cases "getType (npcs d ! self)"; cases "getType (npcs d ! other)")
     (simp_all add: accept_def visit_Princess_def visit_Dragon_def visit_Knight_def onKill_def
      rule_table_def Let_def)




lemmas battle_run = battle_eval battle_inner.simps battle_outer.simps

text \<open>
  The rounding is visible: the \<^verbatim>\<open>double\<close> nearest to the square root of 13 lies below
  it, and with that number as the range a Dragon at \<open>(0,0)\<close> kills a Princess at
  \<open>(2,3)\<close>, whose computed distance is that same number.
\<close>

lemma battle_at_rounded_range:
  "8118979690322419 / 2 ^ 51 < sqrt 13
   \<and> battle (8118979690322419 / 2 ^ 51) dragon_princess_2_3 =
       \<lparr>npcs = [\<lparr>getType = DRAGON, getName = ''D'', getX = 0, getY = 0, isAlive = True\<rparr>],
        console = [KillLine ''D'' ''P'']\<rparr>"
proof
  show "8118979690322419 / 2 ^ 51 < sqrt 13"
    by (rule real_less_rsqrt) (simp add: power2_eq_square field_simps)
  have d: "distanceTo (npcs dragon_princess_2_3 ! 0) (npcs dragon_princess_2_3 ! 1)
      = 8118979690322419 / 2 ^ 51"
    using binary64_sqrt_13 by (simp add: dragon_princess_2_3_def distanceTo_def binary64_numeral)
  have d': "distanceTo (npcs dragon_princess_2_3 ! 1) (npcs dragon_princess_2_3 ! 0)
      = 8118979690322419 / 2 ^ 51"
    using binary64_sqrt_13 by (simp add: dragon_princess_2_3_def distanceTo_def binary64_numeral)
  show "battle (8118979690322419 / 2 ^ 51) dragon_princess_2_3 =
       \<lparr>npcs = [\<lparr>getType = DRAGON, getName = ''D'', getX = 0, getY = 0, isAlive = True\<rparr>],
        console = [KillLine ''D'' ''P'']\<rparr>"
    using d d'
    by (simp add: dragon_princess_2_3_def battle_def accept_def visit_Princess_def
        visit_Dragon_def visit_Knight_def onKill_def markDead_def Let_def
        battle_inner.simps battle_outer.simps)
qed


lemma rule_table_asym: "rule_table a b \<Longrightarrow> \<not> rule_table b a"
  by (auto simp: rule_table_def)

lemma getType_markDead [simp]: "getType (markDead n) = getType n"
  by (simp add: markDead_def)

section \<open>The battle pass on scenarios and pairs\<close>

text \<open>
  Claim C1, as stated: with Knight K, Dragon Dr and Princess Pr, in this order and all at
  \<open>(0,0)\<close>, a battle of range 0 reports both "Dr kills Pr" and "K kills Dr" and leaves K
  alone. The code does not: the pair (K, Dr) comes first and kills Dr, and the outer loop
  skips a dead \<open>npcs[i]\<close> (line 206), so Dr never visits Pr.
\<close>

theorem battle_knight_dragon_princess_fails:
  "\<not> (KillLine ''Dr'' ''Pr'' \<in> set (console (battle 0 \<lparr>npcs =
         [\<lparr>getType = KNIGHT, getName = ''K'', getX = 0, getY = 0, isAlive = True\<rparr>,
          \<lparr>getType = DRAGON, getName = ''Dr'', getX = 0, getY = 0, isAlive = True\<rparr>,
          \<lparr>getType = PRINCESS, getName = ''Pr'', getX = 0, getY = 0, isAlive = True\<rparr>],
         console = []\<rparr>))
      \<and> KillLine ''K'' ''Dr'' \<in> set (console (battle 0 \<lparr>npcs =
         [\<lparr>getType = KNIGHT, getName = ''K'', getX = 0, getY = 0, isAlive = True\<rparr>,
          \<lparr>getType = DRAGON, getName = ''Dr'', getX = 0, getY = 0, isAlive = True\<rparr>,
          \<lparr>getType = PRINCESS, getName = ''Pr'', getX = 0, getY = 0, isAlive = True\<rparr>],
         console = []\<rparr>))
      \<and> map getName (npcs (battle 0 \<lparr>npcs =
         [\<lparr>getType = KNIGHT, getName = ''K'', getX = 0, getY = 0, isAlive = True\<rparr>,
          \<lparr>getType = DRAGON, getName = ''Dr'', getX = 0, getY = 0, isAlive = True\<rparr>,
          \<lparr>getType = PRINCESS, getName = ''Pr'', getX = 0, getY = 0, isAlive = True\<rparr>],
         console = []\<rparr>)) = [''K''])"
  by (simp add: battle_run)

text \<open>
  Claim C1, amended: on that registry a battle of range 0 reports exactly one kill,
  "K kills Dr", and the survivors are K and Pr, in this order.
\<close>

theorem battle_knight_dragon_princess:
  "battle 0 \<lparr>npcs =
      [\<lparr>getType = KNIGHT, getName = ''K'', getX = 0, getY = 0, isAlive = True\<rparr>,
       \<lparr>getType = DRAGON, getName = ''Dr'', getX = 0, getY = 0, isAlive = True\<rparr>,
       \<lparr>getType = PRINCESS, getName = ''Pr'', getX = 0, getY = 0, isAlive = True\<rparr>],
      console = out\<rparr> =
   \<lparr>npcs =
      [\<lparr>getType = KNIGHT, getName = ''K'', getX = 0, getY = 0, isAlive = True\<rparr>,
       \<lparr>getType = PRINCESS, getName = ''Pr'', getX = 0, getY = 0, isAlive = True\<rparr>],
      console = out @ [KillLine ''K'' ''Dr'']\<rparr>"
  by (simp add: battle_run)


text \<open>
  Claim C3: inside one pair \<open>(i, j)\<close> the loop body runs direction \<open>i \<rightarrow> j\<close> first and
  direction \<open>j \<rightarrow> i\<close> on the state the first direction left; and when the first direction
  killed \<open>j\<close>, the second direction changes nothing: \<open>j\<close> does not kill back. (The visitor
  tests the alive flag of the victim only; the victim of the first direction cannot kill
  back because the rule table never holds in both directions.)
\<close>

theorem pair_second_direction_after_first:
  "battle_inner rng i j d =
     (if j < length (npcs d) then
        if \<not> isAlive (npcs d ! j) then battle_inner rng i (j + 1) d
        else battle_inner rng i (j + 1) (accept rng j i (accept rng i j d))
      else d)
   \<and> (isAlive (npcs d ! j) \<and> \<not> isAlive (npcs (accept rng i j d) ! j) \<longrightarrow>
        accept rng j i (accept rng i j d) = accept rng i j d)"
proof (intro conjI impI)
  show "battle_inner rng i j d =
     (if j < length (npcs d) then
        if \<not> isAlive (npcs d ! j) then battle_inner rng i (j + 1) d
        else battle_inner rng i (j + 1) (accept rng j i (accept rng i j d))
      else d)"
    by (rule battle_inner.simps)
next
  let ?d1 = "accept rng i j d"
  assume a: "isAlive (npcs d ! j) \<and> \<not> isAlive (npcs ?d1 ! j)"
  then have changed: "?d1 \<noteq> d" by auto
  then have kill: "rule_table (getType (npcs d ! i)) (getType (npcs d ! j))"
    and d1: "?d1 = d\<lparr>npcs := (npcs d)[j := markDead (npcs d ! j)],
             console := console d @
               [KillLine (getName ((npcs d)[j := markDead (npcs d ! j)] ! i))
                         (getName ((npcs d)[j := markDead (npcs d ! j)] ! j))]\<rparr>"
    by (simp_all add: accept_eq[of rng i j d] split: if_splits)
  have "i \<noteq> j" using kill by (auto simp: rule_table_def)
  have inb: "j < length (npcs d)"
  proof (rule ccontr)
    assume "\<not> j < length (npcs d)"
    then have "npcs ?d1 ! j = npcs d ! j" by (simp add: d1 list_update_beyond)
    with a show False by simp
  qed
  have tj: "getType (npcs ?d1 ! j) = getType (npcs d ! j)"
    using inb by (simp add: d1)
  have ti: "getType (npcs ?d1 ! i) = getType (npcs d ! i)"
    using \<open>i \<noteq> j\<close> by (simp add: d1)
  have "\<not> rule_table (getType (npcs ?d1 ! j)) (getType (npcs ?d1 ! i))"
    using rule_table_asym[OF kill] by (simp add: tj ti)
  then show "accept rng j i ?d1 = ?d1"
    by (subst accept_eq) simp
qed

theorem pair_second_direction_after_first_witness:
  "(isAlive (npcs \<lparr>npcs =
        [\<lparr>getType = DRAGON, getName = ''D'', getX = 0, getY = 0, isAlive = True\<rparr>,
         \<lparr>getType = PRINCESS, getName = ''P'', getX = 3, getY = 4, isAlive = True\<rparr>],
        console = []\<rparr> ! 1)
    \<and> \<not> isAlive (npcs (accept 5 0 1 \<lparr>npcs =
        [\<lparr>getType = DRAGON, getName = ''D'', getX = 0, getY = 0, isAlive = True\<rparr>,
         \<lparr>getType = PRINCESS, getName = ''P'', getX = 3, getY = 4, isAlive = True\<rparr>],
        console = []\<rparr>) ! 1))
   \<and> accept 5 1 0 (accept 5 0 1 \<lparr>npcs =
        [\<lparr>getType = DRAGON, getName = ''D'', getX = 0, getY = 0, isAlive = True\<rparr>,
         \<lparr>getType = PRINCESS, getName = ''P'', getX = 3, getY = 4, isAlive = True\<rparr>],
        console = []\<rparr>)
     = accept 5 0 1 \<lparr>npcs =
        [\<lparr>getType = DRAGON, getName = ''D'', getX = 0, getY = 0, isAlive = True\<rparr>,
         \<lparr>getType = PRINCESS, getName = ''P'', getX = 3, getY = 4, isAlive = True\<rparr>],
        console = []\<rparr>"
  using pair_second_direction_after_first [of 5 0 1 "\<lparr>npcs =
        [\<lparr>getType = DRAGON, getName = ''D'', getX = 0, getY = 0, isAlive = True\<rparr>,
         \<lparr>getType = PRINCESS, getName = ''P'', getX = 3, getY = 4, isAlive = True\<rparr>],
        console = []\<rparr>"]
  by (simp add: battle_eval)




text \<open>
  Claim C9: the visitor never looks at the alive flag of the visited object, and the inner
  loop does not test \<open>npcs[i]\<close> again, so an outer entity killed in an earlier pair still
  kills in the later pairs of the same pass. With Dragon, Knight, Princess in this order at
  \<open>(0,0)\<close> and range 0, the inner loop for \<open>i = 0\<close> first lets the Knight kill the
  Dragon and then lets the dead Dragon kill the Princess; the pass leaves the Knight only.
\<close>

theorem dead_outer_entity_still_kills:
  "(\<not> isAlive (npcs d ! i) \<and> i \<noteq> j \<and> j < length (npcs d) \<and> isAlive (npcs d ! j)
      \<and> distanceTo (npcs d ! i) (npcs d ! j) \<le> rng
      \<and> rule_table (getType (npcs d ! i)) (getType (npcs d ! j))
     \<longrightarrow> \<not> isAlive (npcs (accept rng i j d) ! j)
         \<and> console (accept rng i j d) =
             console d @ [KillLine (getName (npcs d ! i)) (getName (npcs d ! j))])
   \<and> battle_inner 0 0 1 dragon_knight_princess =
       \<lparr>npcs =
         [\<lparr>getType = DRAGON, getName = ''Dr'', getX = 0, getY = 0, isAlive = False\<rparr>,
          \<lparr>getType = KNIGHT, getName = ''K'', getX = 0, getY = 0, isAlive = True\<rparr>,
          \<lparr>getType = PRINCESS, getName = ''Pr'', getX = 0, getY = 0, isAlive = False\<rparr>],
        console = [KillLine ''K'' ''Dr'', KillLine ''Dr'' ''Pr'']\<rparr>
   \<and> battle 0 dragon_knight_princess =
       \<lparr>npcs = [\<lparr>getType = KNIGHT, getName = ''K'', getX = 0, getY = 0, isAlive = True\<rparr>],
        console = [KillLine ''K'' ''Dr'', KillLine ''Dr'' ''Pr'']\<rparr>"
proof (intro conjI impI)
  assume a: "\<not> isAlive (npcs d ! i) \<and> i \<noteq> j \<and> j < length (npcs d) \<and> isAlive (npcs d ! j)
      \<and> distanceTo (npcs d ! i) (npcs d ! j) \<le> rng
      \<and> rule_table (getType (npcs d ! i)) (getType (npcs d ! j))"
  then show "\<not> isAlive (npcs (accept rng i j d) ! j)"
    by (subst accept_eq) (simp add: markDead_def)
  from a show "console (accept rng i j d) =
             console d @ [KillLine (getName (npcs d ! i)) (getName (npcs d ! j))]"
    by (subst accept_eq) (simp add: markDead_def)
next
  show "battle_inner 0 0 1 dragon_knight_princess =
       \<lparr>npcs =
         [\<lparr>getType = DRAGON, getName = ''Dr'', getX = 0, getY = 0, isAlive = False\<rparr>,
          \<lparr>getType = KNIGHT, getName = ''K'', getX = 0, getY = 0, isAlive = True\<rparr>,
          \<lparr>getType = PRINCESS, getName = ''Pr'', getX = 0, getY = 0, isAlive = False\<rparr>],
        console = [KillLine ''K'' ''Dr'', KillLine ''Dr'' ''Pr'']\<rparr>"
    by (simp add: dragon_knight_princess_def battle_run)
next
  show "battle 0 dragon_knight_princess =
       \<lparr>npcs = [\<lparr>getType = KNIGHT, getName = ''K'', getX = 0, getY = 0, isAlive = True\<rparr>],
        console = [KillLine ''K'' ''Dr'', KillLine ''Dr'' ''Pr'']\<rparr>"
    by (simp add: dragon_knight_princess_def battle_run)
qed

theorem dead_outer_entity_still_kills_witness:
  "(\<not> isAlive (npcs dead_dragon_and_princess ! 0) \<and> (0::nat) \<noteq> 1
      \<and> 1 < length (npcs dead_dragon_and_princess)
      \<and> isAlive (npcs dead_dragon_and_princess ! 1)
      \<and> distanceTo (npcs dead_dragon_and_princess ! 0) (npcs dead_dragon_and_princess ! 1) \<le> 0
      \<and> rule_table (getType (npcs dead_dragon_and_princess ! 0))
                    (getType (npcs dead_dragon_and_princess ! 1)))
   \<and> \<not> isAlive (npcs (accept 0 0 1 dead_dragon_and_princess) ! 1)
   \<and> console (accept 0 0 1 dead_dragon_and_princess) = [KillLine ''Dr'' ''Pr'']"
proof -
  have h: "\<not> isAlive (npcs dead_dragon_and_princess ! 0) \<and> (0::nat) \<noteq> 1
      \<and> 1 < length (npcs dead_dragon_and_princess)
      \<and> isAlive (npcs dead_dragon_and_princess ! 1)
      \<and> distanceTo (npcs dead_dragon_and_princess ! 0) (npcs dead_dragon_and_princess ! 1) \<le> 0
      \<and> rule_table (getType (npcs dead_dragon_and_princess ! 0))
                    (getType (npcs dead_dragon_and_princess ! 1))"
    by (simp add: dead_dragon_and_princess_def distance_eval rule_table_def)
  with dead_outer_entity_still_kills [of dead_dragon_and_princess 0 1 0]
  have "\<not> isAlive (npcs (accept 0 0 1 dead_dragon_and_princess) ! 1)
      \<and> console (accept 0 0 1 dead_dragon_and_princess) =
          console dead_dragon_and_princess @
            [KillLine (getName (npcs dead_dragon_and_princess ! 0))
                      (getName (npcs dead_dragon_and_princess ! 1))]"
    by blast
  with h show ?thesis by (simp add: dead_dragon_and_princess_def)
qed

section \<open>Purge, add and print\<close>

lemma print_loop_alive: "list_all isAlive ns \<Longrightarrow>
   print_loop ns = map (\<lambda>n. NPCLine (getType n) (getName n) (getX n) (getY n)) ns"
  by (induction ns) simp_all

lemma print_loop_filter: "print_loop (filter isAlive ns) = print_loop ns"
  by (induction ns) simp_all

lemma save_loop_filter: "save_loop (filter isAlive ns) = save_loop ns"
  by (induction ns) simp_all

lemma print_loop_append [simp]: "print_loop (xs @ ys) = print_loop xs @ print_loop ys"
  by (induction xs) simp_all

lemma save_loop_append [simp]: "save_loop (xs @ ys) = save_loop xs @ save_loop ys"
  by (induction xs) simp_all

lemma save_loop_alive: "list_all isAlive ns \<Longrightarrow> save_loop ns = concat (map save_line ns)"
  by (induction ns) (simp_all add: save_line_def)

text \<open>
  Claim C4: when a battle pass returns, the registry is what the two loops left with every
  entity whose alive flag is false erased: all its entities are alive; a following
  \<open>print\<close> writes one line for each entity of the registry and a following save one
  line for each, none of them for a dead entity.
\<close>

theorem battle_removes_dead:
  "npcs (battle rng d) = filter isAlive (npcs (battle_outer rng 0 d))
   \<and> list_all isAlive (npcs (battle rng d))
   \<and> filter (\<lambda>n. \<not> isAlive n) (npcs (battle rng d)) = []
   \<and> console (print (battle rng d)) = console (battle rng d) @
         map (\<lambda>n. NPCLine (getType n) (getName n) (getX n) (getY n)) (npcs (battle rng d))
   \<and> save_loop (npcs (battle rng d)) = concat (map save_line (npcs (battle rng d)))"
proof -
  have alive: "list_all isAlive (npcs (battle rng d))"
    by (simp add: battle_def Let_def list_all_iff)
  have "npcs (battle rng d) = filter isAlive (npcs (battle_outer rng 0 d))"
    by (simp add: battle_def Let_def)
  moreover have "filter (\<lambda>n. \<not> isAlive n) (npcs (battle rng d)) = []"
    using alive by (simp add: list_all_iff)
  moreover have "console (print (battle rng d)) = console (battle rng d) @
         map (\<lambda>n. NPCLine (getType n) (getName n) (getX n) (getY n)) (npcs (battle rng d))"
    using alive by (simp add: print_loop_alive print_def)
  moreover have "save_loop (npcs (battle rng d)) = concat (map save_line (npcs (battle rng d)))"
    using alive by (rule save_loop_alive)
  ultimately show ?thesis using alive by blast
qed

text \<open>
  Claim C5: \<open>addNPC\<close> with \<open>x\<close> or \<open>y\<close> outside \<open>[0,500]\<close> writes the error message and
  leaves the registry as it was; with both inside it appends exactly the entity made from
  its arguments and writes nothing, and a following \<open>print\<close> ends with the line of that
  entity, showing the kind, name and coordinates given.
\<close>

theorem addNPC_checks_coordinates:
  "(x < 0 \<or> x > 500 \<or> y < 0 \<or> y > 500 \<longrightarrow>
      addNPC type name x y d = d\<lparr>console := console d @ [BadCoordinates]\<rparr>
      \<and> npcs (addNPC type name x y d) = npcs d
      \<and> console (addNPC type name x y d) = console d @ [BadCoordinates])
   \<and> (0 \<le> x \<and> x \<le> 500 \<and> 0 \<le> y \<and> y \<le> 500 \<longrightarrow>
      addNPC type name x y d = d\<lparr>npcs := npcs d @
          [\<lparr>getType = type, getName = name, getX = x, getY = y, isAlive = True\<rparr>]\<rparr>
      \<and> npcs (addNPC type name x y d) =
        npcs d @ [\<lparr>getType = type, getName = name, getX = x, getY = y, isAlive = True\<rparr>]
      \<and> console (addNPC type name x y d) = console d
      \<and> console (print (addNPC type name x y d)) =
          console d @ print_loop (npcs d) @ [NPCLine type name x y])"
  by (auto simp: addNPC_def createNPC_def print_def)


theorem addNPC_checks_coordinates_witness:
  "((501::int) > 500
      \<and> addNPC KNIGHT ''k'' 501 0 two_knights = two_knights\<lparr>console := [BadCoordinates]\<rparr>)
   \<and> ((0::int) \<le> 500
      \<and> npcs (addNPC DRAGON ''d'' 500 0 two_knights) =
        npcs two_knights @
          [\<lparr>getType = DRAGON, getName = ''d'', getX = 500, getY = 0, isAlive = True\<rparr>]
      \<and> console (print (addNPC DRAGON ''d'' 500 0 two_knights)) =
          [NPCLine KNIGHT ''A'' 7 7, NPCLine KNIGHT ''B'' 7 8, NPCLine DRAGON ''d'' 500 0])"
proof -
  have h1: "(501::int) < 0 \<or> (501::int) > 500 \<or> (0::int) < 0 \<or> (0::int) > 500" by simp
  have h2: "(0::int) \<le> 500 \<and> (500::int) \<le> 500 \<and> (0::int) \<le> 0 \<and> (0::int) \<le> 500" by simp
  from h1 addNPC_checks_coordinates [of 501 0 KNIGHT "''k''" two_knights]
  have c1: "addNPC KNIGHT ''k'' 501 0 two_knights =
      two_knights\<lparr>console := console two_knights @ [BadCoordinates]\<rparr>"
    by blast
  from h2 addNPC_checks_coordinates [of 500 0 DRAGON "''d''" two_knights]
  have c2: "npcs (addNPC DRAGON ''d'' 500 0 two_knights) =
        npcs two_knights @
          [\<lparr>getType = DRAGON, getName = ''d'', getX = 500, getY = 0, isAlive = True\<rparr>]
      \<and> console (print (addNPC DRAGON ''d'' 500 0 two_knights)) =
          console two_knights @ print_loop (npcs two_knights) @ [NPCLine DRAGON ''d'' 500 0]"
    by blast
  have "console two_knights = []"
    "print_loop (npcs two_knights) = [NPCLine KNIGHT ''A'' 7 7, NPCLine KNIGHT ''B'' 7 8]"
    by (simp_all add: two_knights_def)
  with c1 c2 show ?thesis by simp
qed

section \<open>Streams: what an extraction reads\<close>

lemma isdigit_not_isspace: "isdigit c \<Longrightarrow> \<not> isspace c"
  by (auto simp: isdigit_def isspace_def)

lemma isspace_literals [simp]: "isspace CHR '' ''" "isspace (CHR 0x0A)"
  by (simp_all add: isspace_def)

lemma not_isdigit_literals [simp]: "\<not> isdigit CHR '' ''" "\<not> isdigit (CHR 0x0A)"
  "\<not> isdigit CHR ''-''" "\<not> isdigit CHR ''+''"
  by (simp_all add: isdigit_def)

lemma digit_cases: "k < 10 \<Longrightarrow> k \<in> {0, 1, 2, 3, 4, 5, 6, 7, 8, 9 :: nat}"
  by auto

lemma isdigit_digit_char: "k < 10 \<Longrightarrow> isdigit (digit_char k)"
  by (drule digit_cases) (auto simp: isdigit_def digit_char_def)

lemma digit_value_digit_char: "k < 10 \<Longrightarrow> int (of_char (digit_char k)) - 48 = int k"
  by (drule digit_cases) (auto simp: digit_char_def)

declare show_nat.simps [simp del]

lemma show_nat_digits: "c \<in> set (show_nat n) \<Longrightarrow> isdigit c"
proof (induction n arbitrary: c rule: show_nat.induct)
  case (1 n)
  show ?case
  proof (cases "n < 10")
    case True
    with "1.prems" show ?thesis
      by (subst (asm) show_nat.simps) (simp add: isdigit_digit_char)
  next
    case False
    with "1.prems" have "c \<in> set (show_nat (n div 10)) \<or> c = digit_char (n mod 10)"
      by (subst (asm) show_nat.simps) auto
    then show ?thesis
      using "1.IH"[OF False] isdigit_digit_char[of "n mod 10"] by auto
  qed
qed

lemma show_nat_not_Nil [simp]: "show_nat n \<noteq> []"
  by (subst show_nat.simps) simp

lemma digits_value_snoc:
  "digits_value (ds @ [c]) = 10 * digits_value ds + (int (of_char c) - 48)"
  by (simp add: digits_value_def)

lemma digits_value_show_nat: "digits_value (show_nat n) = int n"
proof (induction n rule: show_nat.induct)
  case (1 n)
  show ?case
  proof (cases "n < 10")
    case True
    then show ?thesis
      using digit_value_digit_char[of n] by (subst show_nat.simps) (simp add: digits_value_def)
  next
    case False
    have "digits_value (show_nat n) =
          10 * digits_value (show_nat (n div 10)) + (int (of_char (digit_char (n mod 10))) - 48)"
      using False by (subst show_nat.simps) (simp add: digits_value_snoc)
    also have "\<dots> = 10 * int (n div 10) + int (n mod 10)"
      using "1.IH"[OF False] by (simp add: digit_value_digit_char)
    also have "\<dots> = int n" by presburger
    finally show ?thesis .
  qed
qed

lemma takeWhile_run:
  "\<forall>c \<in> set xs. P c \<Longrightarrow> rest = [] \<or> \<not> P (hd rest) \<Longrightarrow> takeWhile P (xs @ rest) = xs"
  by (cases rest) (simp_all add: takeWhile_append2)

lemma dropWhile_run:
  "\<forall>c \<in> set xs. P c \<Longrightarrow> rest = [] \<or> \<not> P (hd rest) \<Longrightarrow> dropWhile P (xs @ rest) = rest"
  by (cases rest) (simp_all add: dropWhile_append2)

text \<open>A token between whitespace is read whole, and the stream stops right after it.\<close>

lemma extract_string_token:
  assumes "\<forall>c \<in> set w. isspace c" "tok \<noteq> []" "\<forall>c \<in> set tok. \<not> isspace c"
    "rest = [] \<or> isspace (hd rest)"
  shows "extract_string old \<lparr>buffer = w @ tok @ rest, failbit = False\<rparr> =
           (tok, \<lparr>buffer = rest, failbit = False\<rparr>)"
proof -
  have "\<not> isspace (hd (tok @ rest))" using assms(2,3) by (cases tok) auto
  then have b: "dropWhile isspace (w @ tok @ rest) = tok @ rest"
    using assms(1,2) by (intro dropWhile_run) auto
  have t: "takeWhile (\<lambda>c. \<not> isspace c) (tok @ rest) = tok"
    using assms(3,4) by (intro takeWhile_run) auto
  have d: "dropWhile (\<lambda>c. \<not> isspace c) (tok @ rest) = rest"
    using assms(3,4) by (intro dropWhile_run) auto
  show ?thesis
    using assms(2) by (simp add: extract_string_def Let_def b t d)
qed

text \<open>A number written by \<open>show_int\<close> is read back, when it fits an \<open>int\<close>.\<close>

lemma extract_int_show_nat:
  assumes "\<forall>c \<in> set w. isspace c" "int n \<le> 2147483647" "rest = [] \<or> \<not> isdigit (hd rest)"
  shows "extract_int old \<lparr>buffer = w @ show_nat n @ rest, failbit = False\<rparr> =
           (int n, \<lparr>buffer = rest, failbit = False\<rparr>)"
proof -
  let ?b = "show_nat n @ rest"
  have dig: "\<forall>c \<in> set (show_nat n). isdigit c" using show_nat_digits by blast
  have hd: "hd ?b \<in> set (show_nat n)" by (cases "show_nat n") simp_all
  then have hd_digit: "isdigit (hd ?b)" using dig by blast
  then have "\<not> isspace (hd ?b)" by (rule isdigit_not_isspace)
  then have b: "dropWhile isspace (w @ ?b) = ?b"
    using assms(1) by (intro dropWhile_run) auto
  have nosign: "hd ?b \<noteq> CHR ''-''" "hd ?b \<noteq> CHR ''+''"
    using hd_digit by auto
  have t: "takeWhile isdigit ?b = show_nat n"
    using dig assms(3) by (intro takeWhile_run) auto
  have d: "dropWhile isdigit ?b = rest"
    using dig assms(3) by (intro dropWhile_run) auto
  show ?thesis
    using assms(2) nosign
    by (simp add: extract_int_def Let_def b t d digits_value_show_nat)
qed


lemma save_line_keyword:
  "save_line n = keyword (getType n) @ '' '' @ getName n @ '' '' @ show_int (getX n) @ '' ''
      @ show_int (getY n) @ [CHR 0x0A]"
  by (cases "getType n") (simp_all add: save_line_def keyword_def)

lemma keyword_token: "keyword t \<noteq> []" "\<forall>c \<in> set (keyword t). \<not> isspace c"
  by (cases t; simp add: keyword_def isspace_def)+

lemma loadFromStream_save_line:
  assumes "saveable n" "isAlive n" "\<forall>c \<in> set w. isspace c"
  shows "loadFromStream \<lparr>buffer = w @ save_line n @ rest, failbit = False\<rparr> =
           (Some n, \<lparr>buffer = CHR 0x0A # rest, failbit = False\<rparr>)"
proof -
  let ?sx = "show_nat (nat (getX n))" and ?sy = "show_nat (nat (getY n))"
  let ?r3 = "'' '' @ ?sy @ CHR 0x0A # rest"
  let ?r2 = "'' '' @ ?sx @ ?r3"
  let ?r1 = "'' '' @ getName n @ ?r2"
  from assms(1) have name: "getName n \<noteq> []" "\<forall>c \<in> set (getName n). \<not> isspace c"
    and x: "0 \<le> getX n" "getX n \<le> 500" and y: "0 \<le> getY n" "getY n \<le> 500"
    by (simp_all add: saveable_def list_all_iff)
  have buf: "w @ save_line n @ rest = w @ keyword (getType n) @ ?r1"
    using x y by (simp add: save_line_keyword show_int_def)
  have s1: "extract_string [] \<lparr>buffer = w @ keyword (getType n) @ ?r1, failbit = False\<rparr> =
      (keyword (getType n), \<lparr>buffer = ?r1, failbit = False\<rparr>)"
    by (rule extract_string_token) (use assms(3) keyword_token in simp_all)
  have s2: "extract_string [] \<lparr>buffer = '' '' @ getName n @ ?r2, failbit = False\<rparr> =
      (getName n, \<lparr>buffer = ?r2, failbit = False\<rparr>)"
    by (rule extract_string_token) (use name in simp_all)
  have s3: "extract_int 0 \<lparr>buffer = '' '' @ ?sx @ ?r3, failbit = False\<rparr> =
      (int (nat (getX n)), \<lparr>buffer = ?r3, failbit = False\<rparr>)"
    by (rule extract_int_show_nat) (use x in simp_all)
  have s4: "extract_int 0 \<lparr>buffer = '' '' @ ?sy @ CHR 0x0A # rest, failbit = False\<rparr> =
      (int (nat (getY n)), \<lparr>buffer = CHR 0x0A # rest, failbit = False\<rparr>)"
    by (rule extract_int_show_nat) (use y in simp_all)
  have n: "createNPC (getType n) (getName n) (getX n) (getY n) = n"
    using assms(2) by (simp add: createNPC_def)
  have kw: "keyword (getType n) = ''PRINCESS'' \<or> keyword (getType n) = ''DRAGON''
      \<or> keyword (getType n) = ''KNIGHT''"
    by (cases "getType n") (simp_all add: keyword_def)
  have ty: "(if keyword (getType n) = ''PRINCESS'' then PRINCESS
             else if keyword (getType n) = ''DRAGON'' then DRAGON else KNIGHT) = getType n"
    by (cases "getType n") (simp_all add: keyword_def)
  have range: "\<not> (getX n < 0 \<or> 500 < getX n \<or> getY n < 0 \<or> 500 < getY n)"
    using x y by simp
  show ?thesis
    unfolding buf loadFromStream_def
    using x y
    by (simp add: s1 s2 s3 s4 kw ty n range del: append.simps)
qed


declare load_loop.simps [simp del]

lemma extract_string_skip:
  "\<forall>c \<in> set w. isspace c \<Longrightarrow>
     extract_string old \<lparr>buffer = w @ b, failbit = False\<rparr> =
     extract_string old \<lparr>buffer = b, failbit = False\<rparr>"
  by (simp add: extract_string_def dropWhile_append2)

lemma loadFromStream_skip:
  "\<forall>c \<in> set w. isspace c \<Longrightarrow>
     loadFromStream \<lparr>buffer = w @ b, failbit = False\<rparr> =
     loadFromStream \<lparr>buffer = b, failbit = False\<rparr>"
  by (simp add: loadFromStream_def extract_string_skip)

lemma save_loop_Cons_alive: "isAlive n \<Longrightarrow> save_loop (n # ns) = save_line n @ save_loop ns"
  by (cases "getType n") (simp_all add: save_line_def)

lemma load_loop_saved:
  assumes "list_all (\<lambda>n. isAlive n \<longrightarrow> saveable n) ns" "\<forall>c \<in> set w. isspace c"
    "fst (loadFromStream \<lparr>buffer = tail, failbit = False\<rparr>) = None"
  shows "load_loop \<lparr>buffer = w @ save_loop ns @ tail, failbit = False\<rparr> acc =
           acc @ filter isAlive ns"
  using assms(1,2)
proof (induction ns arbitrary: w acc)
  case Nil
  have "fst (loadFromStream \<lparr>buffer = w @ tail, failbit = False\<rparr>) = None"
    using Nil.prems(2) assms(3) by (simp add: loadFromStream_skip)
  then show ?case
    by (subst load_loop.simps) (auto split: prod.splits option.splits)
next
  case (Cons n ns)
  show ?case
  proof (cases "isAlive n")
    case False
    then show ?thesis using Cons by simp
  next
    case True
    then have sv: "saveable n" using Cons.prems(1) by simp
    have "loadFromStream \<lparr>buffer = w @ save_line n @ save_loop ns @ tail, failbit = False\<rparr> =
           (Some n, \<lparr>buffer = CHR 0x0A # save_loop ns @ tail, failbit = False\<rparr>)"
      using sv True Cons.prems(2) by (rule loadFromStream_save_line)
    then have "load_loop \<lparr>buffer = w @ save_loop (n # ns) @ tail, failbit = False\<rparr> acc =
          load_loop \<lparr>buffer = [CHR 0x0A] @ save_loop ns @ tail, failbit = False\<rparr> (acc @ [n])"
      using True by (subst load_loop.simps) (simp add: save_loop_Cons_alive del: save_loop.simps)
    also have "\<dots> = (acc @ [n]) @ filter isAlive ns"
      by (rule Cons.IH) (use Cons.prems(1) in simp_all)
    finally show ?thesis using True by simp
  qed
qed

lemma loadFromStream_eof: "fst (loadFromStream \<lparr>buffer = [], failbit = False\<rparr>) = None"
  by (simp add: loadFromStream_def extract_string_def extract_int_def)

lemma load_loop_roundtrip:
  assumes "list_all (\<lambda>n. isAlive n \<longrightarrow> saveable n) ns"
  shows "load_loop \<lparr>buffer = save_loop ns, failbit = False\<rparr> [] = filter isAlive ns"
  using load_loop_saved[OF assms, of "[]" "[]" "[]"] loadFromStream_eof by simp


lemmas stream_eval = loadFromStream_def extract_string_def extract_int_def isspace_def isdigit_def
  digits_value_def createNPC_def Let_def

lemmas file_eval = loadFromFile_def saveToFile_def ifstream_def all_writable_def load_loop.simps
  show_int_def show_nat.simps digit_char_def stream_eval

section \<open>Load and save\<close>

text \<open>
  Claim C2, as stated: a line that fails is skipped and the load goes on, so the two-line
  file yields the well-formed entity whichever line comes first. With the out-of-range
  line first the code loads nothing: \<^verbatim>\<open>loadFromStream\<close> returns a null pointer for
  that record and the loop of \<^verbatim>\<open>loadFromFile\<close> ends at the first null pointer.
\<close>

theorem load_stops_at_bad_line:
  "npcs (loadFromFile ''f'' (all_writable [''f'' \<mapsto> bad_then_good]) two_knights) \<noteq> [knight_a]"
  by (simp add: bad_then_good_def knight_a_def file_eval)

text \<open>
  Claim C2, amended: the first record that fails (wrong format, unknown kind keyword,
  coordinate outside \<open>[0,500]\<close>) ends the load; the registry holds the entities read
  before it and nothing after it is read. A file that starts with the saved lines of
  \<open>ns\<close> and goes on with text on which \<^verbatim>\<open>loadFromStream\<close> fails loads exactly the
  living entities of \<open>ns\<close>. The well-formed line followed by the out-of-range line gives
  exactly the well-formed entity; the out-of-range line, a line with an unknown keyword
  or a malformed line followed by the well-formed line gives the empty registry.
\<close>

theorem load_until_first_failure:
  "(list_all (\<lambda>n. isAlive n \<longrightarrow> saveable n) ns
      \<and> fst (loadFromStream \<lparr>buffer = tail, failbit = False\<rparr>) = None
      \<and> files fs path = Some (save_loop ns @ tail)
     \<longrightarrow> npcs (loadFromFile path fs d) = filter isAlive ns)
   \<and> npcs (loadFromFile ''f'' (all_writable [''f'' \<mapsto> good_then_bad]) d) = [knight_a]
   \<and> npcs (loadFromFile ''f'' (all_writable [''f'' \<mapsto> bad_then_good]) d) = []
   \<and> npcs (loadFromFile ''f'' (all_writable [''f'' \<mapsto> unknown_kind_then_good]) d) = []
   \<and> npcs (loadFromFile ''f'' (all_writable [''f'' \<mapsto> malformed_then_good]) d) = []"
proof (intro conjI impI)
  assume a: "list_all (\<lambda>n. isAlive n \<longrightarrow> saveable n) ns
      \<and> fst (loadFromStream \<lparr>buffer = tail, failbit = False\<rparr>) = None
      \<and> files fs path = Some (save_loop ns @ tail)"
  then have "load_loop \<lparr>buffer = [] @ save_loop ns @ tail, failbit = False\<rparr> [] = [] @ filter isAlive ns"
    by (intro load_loop_saved) simp_all
  with a show "npcs (loadFromFile path fs d) = filter isAlive ns"
    by (simp add: loadFromFile_def ifstream_def)
qed (simp_all add: good_then_bad_def bad_then_good_def unknown_kind_then_good_def
       malformed_then_good_def knight_a_def file_eval)

theorem load_until_first_failure_witness:
  "list_all (\<lambda>n. isAlive n \<longrightarrow> saveable n) [knight_a]
   \<and> fst (loadFromStream \<lparr>buffer = ''DRAGON b 501 3'' @ [CHR 0x0A] @ ''PRINCESS c 4 5'',
                            failbit = False\<rparr>) = None
   \<and> files (all_writable [''f'' \<mapsto> save_loop [knight_a] @
               ''DRAGON b 501 3'' @ [CHR 0x0A] @ ''PRINCESS c 4 5'']) ''f''
       = Some (save_loop [knight_a] @ ''DRAGON b 501 3'' @ [CHR 0x0A] @ ''PRINCESS c 4 5'')
   \<and> npcs (loadFromFile ''f'' (all_writable [''f'' \<mapsto> save_loop [knight_a] @
               ''DRAGON b 501 3'' @ [CHR 0x0A] @ ''PRINCESS c 4 5'']) two_knights)
       = [knight_a]"
proof -
  have h: "list_all (\<lambda>n. isAlive n \<longrightarrow> saveable n) [knight_a]
      \<and> fst (loadFromStream \<lparr>buffer = ''DRAGON b 501 3'' @ [CHR 0x0A] @ ''PRINCESS c 4 5'',
                            failbit = False\<rparr>) = None
      \<and> files (all_writable [''f'' \<mapsto> save_loop [knight_a] @
               ''DRAGON b 501 3'' @ [CHR 0x0A] @ ''PRINCESS c 4 5'']) ''f''
       = Some (save_loop [knight_a] @ ''DRAGON b 501 3'' @ [CHR 0x0A] @ ''PRINCESS c 4 5'')"
    by (simp add: knight_a_def saveable_def all_writable_def stream_eval)
  with load_until_first_failure [of "[knight_a]"
      "''DRAGON b 501 3'' @ [CHR 0x0A] @ ''PRINCESS c 4 5''"
      "all_writable [''f'' \<mapsto> save_loop [knight_a] @
               ''DRAGON b 501 3'' @ [CHR 0x0A] @ ''PRINCESS c 4 5'']" "''f''" two_knights]
  have "npcs (loadFromFile ''f'' (all_writable [''f'' \<mapsto> save_loop [knight_a] @
               ''DRAGON b 501 3'' @ [CHR 0x0A] @ ''PRINCESS c 4 5'']) two_knights)
       = filter isAlive [knight_a]"
    by blast
  with h show ?thesis by (simp add: knight_a_def)
qed

text \<open>
  Claim C6, as stated: for every registry whose names contain no whitespace, save then
  load gives back the living entities. An empty name contains no whitespace, and its line
  is read back with the coordinates shifted into the name: nothing is loaded.
\<close>

theorem save_then_load_loses_nameless:
  "list_all (\<lambda>n. list_all (\<lambda>c. \<not> isspace c) (getName n)) (npcs nameless_knight)
   \<and> npcs (loadFromFile ''f'' (saveToFile ''f'' nameless_knight (all_writable Map.empty))
         nameless_knight) = []
   \<and> filter isAlive (npcs nameless_knight) \<noteq> []"
  by (simp add: nameless_knight_def file_eval)

text \<open>
  Claim C6, amended: for every registry whose living entities have names that are not
  empty and contain no whitespace (and coordinates in \<open>[0,500]\<close>, which \<open>addNPC\<close> and
  \<open>loadFromStream\<close> enforce), saving to a path that can be opened for writing and
  loading from the same path gives exactly the living entities, in the same order and with
  the same kinds, names and coordinates; the empty registry gives the empty registry.
\<close>

theorem save_then_load:
  "(list_all (\<lambda>n. isAlive n \<longrightarrow> saveable n) (npcs d) \<and> writable fs path
     \<longrightarrow> npcs (loadFromFile path (saveToFile path d fs) d') = filter isAlive (npcs d))
   \<and> (writable fs path
     \<longrightarrow> npcs (loadFromFile path (saveToFile path (d\<lparr>npcs := []\<rparr>) fs) d') = [])"
proof (intro conjI impI)
  assume a: "list_all (\<lambda>n. isAlive n \<longrightarrow> saveable n) (npcs d) \<and> writable fs path"
  then have "load_loop \<lparr>buffer = save_loop (npcs d), failbit = False\<rparr> [] = filter isAlive (npcs d)"
    by (intro load_loop_roundtrip) simp
  with a show "npcs (loadFromFile path (saveToFile path d fs) d') = filter isAlive (npcs d)"
    by (simp add: loadFromFile_def saveToFile_def ifstream_def)
next
  assume "writable fs path"
  then show "npcs (loadFromFile path (saveToFile path (d\<lparr>npcs := []\<rparr>) fs) d') = []"
    using load_loop_roundtrip[of "[]"] by (simp add: loadFromFile_def saveToFile_def ifstream_def)
qed


theorem save_then_load_witness:
  "list_all (\<lambda>n. isAlive n \<longrightarrow> saveable n) (npcs knight_dead_dragon_princess)
   \<and> writable (all_writable Map.empty) ''dungeon.txt''
   \<and> npcs (loadFromFile ''dungeon.txt''
        (saveToFile ''dungeon.txt'' knight_dead_dragon_princess (all_writable Map.empty))
        two_knights) =
       [\<lparr>getType = KNIGHT, getName = ''K'', getX = 1, getY = 2, isAlive = True\<rparr>,
        \<lparr>getType = PRINCESS, getName = ''Pr'', getX = 0, getY = 500, isAlive = True\<rparr>]
   \<and> npcs (loadFromFile ''dungeon.txt''
        (saveToFile ''dungeon.txt'' (knight_dead_dragon_princess\<lparr>npcs := []\<rparr>)
           (all_writable Map.empty))
        two_knights) = []"
proof -
  have h: "list_all (\<lambda>n. isAlive n \<longrightarrow> saveable n) (npcs knight_dead_dragon_princess)
      \<and> writable (all_writable Map.empty) ''dungeon.txt''"
    by (simp add: knight_dead_dragon_princess_def saveable_def all_writable_def isspace_def)
  note t = save_then_load [of knight_dead_dragon_princess "all_writable Map.empty"
      "''dungeon.txt''" two_knights]
  from t h have "npcs (loadFromFile ''dungeon.txt''
        (saveToFile ''dungeon.txt'' knight_dead_dragon_princess (all_writable Map.empty))
        two_knights) = filter isAlive (npcs knight_dead_dragon_princess)"
    by blast
  moreover from t h have "npcs (loadFromFile ''dungeon.txt''
        (saveToFile ''dungeon.txt'' (knight_dead_dragon_princess\<lparr>npcs := []\<rparr>)
           (all_writable Map.empty))
        two_knights) = []"
    by blast
  ultimately show ?thesis using h by (simp add: knight_dead_dragon_princess_def)
qed

section \<open>The command loop\<close>

declare main_loop.simps [simp del]

lemmas main_eval = main_def initial_world_def FileObserver_def main_loop.simps cout_def add_command_def save_command_def
  load_command_def battle_command_def extract_double_def scan_sign_def scan_fraction_def
  scan_exponent_def store_double_def scale_def signed_digits_def print_def addNPC_def
  input_exhausted_def file_eval battle_run

lemma extract_string_failed:
  "failbit s \<Longrightarrow> extract_string old s = (old, s)"
  by (simp add: extract_string_def)

lemma extract_string_end:
  "\<not> failbit s \<Longrightarrow> failbit (snd (extract_string old s)) \<Longrightarrow>
     snd (extract_string old s) = \<lparr>buffer = [], failbit = True\<rparr>"
  by (auto simp: extract_string_def Let_def split: if_splits)

lemma main_loop_end:
  "(fst (main_loop ux uy ur w) = ExitCommand \<longrightarrow> \<not> failbit (cin (snd (main_loop ux uy ur w))))
   \<and> (fst (main_loop ux uy ur w) = EndOfInput \<longrightarrow>
         cin (snd (main_loop ux uy ur w)) = \<lparr>buffer = [], failbit = True\<rparr>)
   \<and> (fst (main_loop ux uy ur w) = FailedStream \<longrightarrow> failbit (cin (snd (main_loop ux uy ur w))))"
proof (induction ux uy ur w rule: main_loop.induct)
  case (1 ux uy ur w)
  define w0 where "w0 = cout Prompt w"
  define command where "command = fst (extract_string [] (cin w0))"
  define c1 where "c1 = snd (extract_string [] (cin w0))"
  have read: "extract_string [] (cin w0) = (command, c1)"
    by (simp add: command_def c1_def)
  note IH = "1.IH"[OF w0_def read[symmetric]]
  show ?case
  proof (cases "failbit c1")
    case True
    then have res: "main_loop ux uy ur w =
        (if failbit (cin w0) then FailedStream else EndOfInput, w0\<lparr>cin := c1\<rparr>)"
      by (subst main_loop.simps) (simp add: w0_def[symmetric] read)
    show ?thesis
    proof (cases "failbit (cin w0)")
      case True
      then show ?thesis using \<open>failbit c1\<close> by (simp add: res)
    next
      case False
      then have "c1 = \<lparr>buffer = [], failbit = True\<rparr>"
        using extract_string_end[of "cin w0" "[]"] \<open>failbit c1\<close> by (simp add: c1_def)
      then show ?thesis using False by (simp add: res)
    qed
  next
    case False
    consider "command = ''add''" | "command = ''print''" | "command = ''save''"
      | "command = ''load''" | "command = ''battle''" | "command = ''exit''"
      | "command \<noteq> ''add''" "command \<noteq> ''print''" "command \<noteq> ''save''"
        "command \<noteq> ''load''" "command \<noteq> ''battle''" "command \<noteq> ''exit''"
      by blast
    then show ?thesis
    proof cases
      case 1
      then have "main_loop ux uy ur w = main_loop ux uy ur (add_command ux uy (w0\<lparr>cin := c1\<rparr>))"
        using False by (subst main_loop.simps) (simp add: w0_def[symmetric] read)
      then show ?thesis using IH(1)[OF False 1] by simp
    next
      case 2
      then have "main_loop ux uy ur w =
          main_loop ux uy ur (w0\<lparr>cin := c1, dungeon := print (dungeon w0)\<rparr>)"
        using False by (subst main_loop.simps) (simp add: w0_def[symmetric] read)
      then show ?thesis using IH(2)[OF False _ 2] 2 by simp
    next
      case 3
      then have "main_loop ux uy ur w = main_loop ux uy ur (save_command (w0\<lparr>cin := c1\<rparr>))"
        using False by (subst main_loop.simps) (simp add: w0_def[symmetric] read)
      then show ?thesis using IH(3)[OF False _ _ 3] 3 by simp
    next
      case 4
      then have "main_loop ux uy ur w = main_loop ux uy ur (load_command (w0\<lparr>cin := c1\<rparr>))"
        using False by (subst main_loop.simps) (simp add: w0_def[symmetric] read)
      then show ?thesis using IH(4)[OF False _ _ _ 4] 4 by simp
    next
      case 5
      then have "main_loop ux uy ur w = main_loop ux uy ur (battle_command ur (w0\<lparr>cin := c1\<rparr>))"
        using False by (subst main_loop.simps) (simp add: w0_def[symmetric] read)
      then show ?thesis using IH(5)[OF False _ _ _ _ 5] 5 by simp
    next
      case 6
      then have "main_loop ux uy ur w = (ExitCommand, w0\<lparr>cin := c1\<rparr>)"
        using False by (subst main_loop.simps) (simp add: w0_def[symmetric] read)
      then show ?thesis using False by simp
    next
      case 7
      then have "main_loop ux uy ur w = main_loop ux uy ur (cout UnknownCommand (w0\<lparr>cin := c1\<rparr>))"
        using False by (subst main_loop.simps) (simp add: w0_def[symmetric] read)
      then show ?thesis using IH(6)[OF False 7] by simp
    qed
  qed
qed


text \<open>
  Claim C8, as stated: the loop ends only at the command \<open>exit\<close> or when the input is
  exhausted. On the input \<open>battle x exit\<close> it ends with the token \<open>exit\<close> unread:
  \<open>x\<close> is no number, the extraction of the range fails, and the failed stream makes the
  next read of a command fail.
\<close>

theorem main_ends_with_unread_exit:
  "\<not> (how_ended (main 0 0 0 ''battle x exit'' (all_writable Map.empty)) = ExitCommand
       \<or> input_exhausted (cin (final_world (main 0 0 0 ''battle x exit'' (all_writable Map.empty)))))"
  by (simp add: main_eval)

text \<open>
  The value read for the range is rounded as well: this text denotes a number below 1 and
  is read as 1.
\<close>

lemma extract_double_rounds:
  "extract_double 0 \<lparr>buffer = ''0.99999999999999999999'', failbit = False\<rparr> =
     (1, \<lparr>buffer = [], failbit = False\<rparr>)"
proof -
  have "binary64 (99999999999999999999 / 10 ^ 20) = of_int (2 ^ 53) / 2 ^ 53"
    by (rule binary64_below_1) simp_all
  then have r: "binary64 (99999999999999999999 / 100000000000000000000) = 1" by simp
  show ?thesis
    by (simp add: extract_double_def scan_sign_def scan_fraction_def scan_exponent_def
        store_double_def scale_def signed_digits_def digits_value_def isspace_def isdigit_def r)
qed


subsection \<open>Where the loop ends\<close>

lemma extract_string_fails_iff:
  "failbit (snd (extract_string old s)) \<longleftrightarrow> failbit s \<or> input_exhausted s"
  by (auto simp: extract_string_def input_exhausted_def Let_def list_all_iff
      simp del: dropWhile_eq_Nil_conv simp add: dropWhile_eq_Nil_conv)

lemma main_loop_continues:
  assumes "continues w"
  shows "main_loop ux uy ur w = main_loop ux uy ur (next_state ux uy ur w)"
proof -
  obtain command c1 where r: "extract_string [] (cin w) = (command, c1)"
    by (cases "extract_string [] (cin w)")
  with assms have ok: "\<not> failbit c1" "command \<noteq> ''exit''"
    by (simp_all add: continues_def)
  show ?thesis
    by (subst main_loop.simps) (simp add: next_state_def r ok Let_def)
qed

lemma main_loop_stops:
  assumes "\<not> continues w"
  shows "main_loop ux uy ur w =
     (if \<not> failbit (snd (extract_string [] (cin w))) then ExitCommand
      else if failbit (cin w) then FailedStream else EndOfInput, stop_state w)"
proof -
  obtain command c1 where r: "extract_string [] (cin w) = (command, c1)"
    by (cases "extract_string [] (cin w)")
  with assms have "failbit c1 \<or> command = ''exit''"
    by (auto simp: continues_def)
  then show ?thesis
    by (subst main_loop.simps) (auto simp: stop_state_def r Let_def)
qed

lemma next_state_consumes:
  assumes "continues w"
  shows "length (buffer (cin (next_state ux uy ur w))) < length (buffer (cin w))"
proof -
  obtain command c1 where r: "extract_string [] (cin w) = (command, c1)"
    by (cases "extract_string [] (cin w)")
  with assms have ok: "\<not> failbit c1" by (simp add: continues_def)
  let ?w1 = "(cout Prompt w)\<lparr>cin := c1\<rparr>"
  have lt: "length (buffer c1) < length (buffer (cin w))"
    using command_read_consumes[OF r[symmetric] ok] .
  have "length (buffer (cin (next_state ux uy ur w))) \<le> length (buffer c1)"
    using add_command_shorter[of ux uy ?w1] save_command_shorter[of ?w1]
      load_command_shorter[of ?w1] battle_command_shorter[of ur ?w1]
    by (simp add: next_state_def r Let_def)
  with lt show ?thesis by linarith
qed

lemma main_loop_after_iterations:
  "(\<And>k. k < n \<Longrightarrow> continues (state_at ux uy ur k w)) \<Longrightarrow>
     main_loop ux uy ur w = main_loop ux uy ur (state_at ux uy ur n w)"
proof (induction n arbitrary: w)
  case 0
  show ?case by simp
next
  case (Suc n)
  have c0: "continues w" using Suc.prems[of 0] by simp
  have "continues (state_at ux uy ur k (next_state ux uy ur w))" if "k < n" for k
    using Suc.prems[of "Suc k"] that by simp
  then have "main_loop ux uy ur (next_state ux uy ur w) =
      main_loop ux uy ur (state_at ux uy ur n (next_state ux uy ur w))"
    by (rule Suc.IH)
  then show ?case using main_loop_continues[OF c0] by simp
qed

lemma loop_ends:
  "\<exists>n. (\<forall>k<n. continues (state_at ux uy ur k w)) \<and> \<not> continues (state_at ux uy ur n w)"
proof (induction "length (buffer (cin w))" arbitrary: w rule: less_induct)
  case less
  show ?case
  proof (cases "continues w")
    case False
    then have "(\<forall>k<0. continues (state_at ux uy ur k w)) \<and> \<not> continues (state_at ux uy ur 0 w)"
      by simp
    then show ?thesis by blast
  next
    case True
    from less[OF next_state_consumes[OF True]]
    obtain n where n: "\<forall>k<n. continues (state_at ux uy ur k (next_state ux uy ur w))"
      "\<not> continues (state_at ux uy ur n (next_state ux uy ur w))"
      by blast
    have "continues (state_at ux uy ur k w)" if "k < Suc n" for k
      using that True n(1) by (cases k) simp_all
    with n(2) have "(\<forall>k<Suc n. continues (state_at ux uy ur k w))
        \<and> \<not> continues (state_at ux uy ur (Suc n) w)"
      by simp
    then show ?thesis by blast
  qed
qed

lemma only_arguments_fail:
  assumes "\<not> failbit (cin w)" "continues w" "failbit (cin (next_state ux uy ur w))"
  shows "fst (extract_string [] (cin w)) \<in> {''add'', ''save'', ''load'', ''battle''}"
proof -
  obtain command c1 where r: "extract_string [] (cin w) = (command, c1)"
    by (cases "extract_string [] (cin w)")
  with assms(2) have ok: "\<not> failbit c1" by (simp add: continues_def)
  show ?thesis
    using assms(3) ok by (auto simp: next_state_def r Let_def split: if_splits)
qed


lemmas loop_eval = continues_def next_state_def stop_state_def main_eval

text \<open>
  Claim C8, amended (every write to standard output is taken to succeed): on every input
  the loop terminates and \<open>main\<close> returns 0. The loop ends at the first iteration whose
  read of the command fails or reads \<open>exit\<close>, and at no other: if the first \<open>n\<close>
  iterations each read a command other than \<open>exit\<close> and the next read fails or reads
  \<open>exit\<close>, the program ends in the state that read leaves. A read of the command fails
  exactly when the stream has failed before or no token is left; the stream fails
  during an iteration only in a command that reads arguments, and then input may be left
  unread, as on \<open>battle x exit\<close>.
\<close>

theorem main_ends_only_at_exit_or_failed_read:
  "exit_code (main ux uy ur stdin fs) = 0
   \<and> (\<exists>m. (\<forall>k<m. continues (state_at ux uy ur k (initial_world stdin fs)))
          \<and> \<not> continues (state_at ux uy ur m (initial_world stdin fs)))
   \<and> ((\<forall>k<n. continues (state_at ux uy ur k (initial_world stdin fs)))
        \<and> \<not> continues (state_at ux uy ur n (initial_world stdin fs))
      \<longrightarrow> final_world (main ux uy ur stdin fs)
            = stop_state (state_at ux uy ur n (initial_world stdin fs))
        \<and> (how_ended (main ux uy ur stdin fs) = ExitCommand \<longleftrightarrow>
             \<not> failbit (snd (extract_string []
                   (cin (state_at ux uy ur n (initial_world stdin fs))))))
        \<and> (how_ended (main ux uy ur stdin fs) = EndOfInput \<longleftrightarrow>
             \<not> failbit (cin (state_at ux uy ur n (initial_world stdin fs)))
             \<and> input_exhausted (cin (state_at ux uy ur n (initial_world stdin fs))))
        \<and> (how_ended (main ux uy ur stdin fs) = FailedStream \<longleftrightarrow>
             failbit (cin (state_at ux uy ur n (initial_world stdin fs)))))
   \<and> (continues w \<longleftrightarrow>
         \<not> failbit (cin w) \<and> \<not> input_exhausted (cin w)
         \<and> fst (extract_string [] (cin w)) \<noteq> ''exit'')
   \<and> (\<not> failbit (cin w) \<and> continues w \<and> failbit (cin (next_state ux uy ur w))
      \<longrightarrow> fst (extract_string [] (cin w)) \<in> {''add'', ''save'', ''load'', ''battle''})
   \<and> (how_ended (main ux uy ur stdin fs) = ExitCommand \<longrightarrow>
         \<not> failbit (cin (final_world (main ux uy ur stdin fs))))
   \<and> (how_ended (main ux uy ur stdin fs) = EndOfInput \<longrightarrow>
         failbit (cin (final_world (main ux uy ur stdin fs)))
         \<and> input_exhausted (cin (final_world (main ux uy ur stdin fs))))
   \<and> (how_ended (main ux uy ur stdin fs) = FailedStream \<longrightarrow>
         failbit (cin (final_world (main ux uy ur stdin fs))))
   \<and> how_ended (main ux uy ur ''battle x exit'' fs) = FailedStream
   \<and> buffer (cin (final_world (main ux uy ur ''battle x exit'' fs))) = ''x exit''"
proof -
  let ?w = "initial_world stdin fs"
  have m: "main ux uy ur stdin fs =
      \<lparr>exit_code = 0, how_ended = fst (main_loop ux uy ur ?w),
       final_world = snd (main_loop ux uy ur ?w)\<rparr>"
    by (simp add: main_def case_prod_beta)
  have ends: "\<exists>m. (\<forall>k<m. continues (state_at ux uy ur k ?w))
          \<and> \<not> continues (state_at ux uy ur m ?w)"
    by (rule loop_ends)
  have at_n: "final_world (main ux uy ur stdin fs) = stop_state (state_at ux uy ur n ?w)
        \<and> (how_ended (main ux uy ur stdin fs) = ExitCommand \<longleftrightarrow>
             \<not> failbit (snd (extract_string [] (cin (state_at ux uy ur n ?w)))))
        \<and> (how_ended (main ux uy ur stdin fs) = EndOfInput \<longleftrightarrow>
             \<not> failbit (cin (state_at ux uy ur n ?w))
             \<and> input_exhausted (cin (state_at ux uy ur n ?w)))
        \<and> (how_ended (main ux uy ur stdin fs) = FailedStream \<longleftrightarrow>
             failbit (cin (state_at ux uy ur n ?w)))"
    if h: "(\<forall>k<n. continues (state_at ux uy ur k ?w)) \<and> \<not> continues (state_at ux uy ur n ?w)"
  proof -
    let ?s = "state_at ux uy ur n ?w"
    have "main_loop ux uy ur ?w = main_loop ux uy ur ?s"
      using h by (intro main_loop_after_iterations) simp
    also have "\<dots> = (if \<not> failbit (snd (extract_string [] (cin ?s))) then ExitCommand
        else if failbit (cin ?s) then FailedStream else EndOfInput, stop_state ?s)"
      using h by (intro main_loop_stops) simp
    finally have r: "main_loop ux uy ur ?w =
        (if \<not> failbit (snd (extract_string [] (cin ?s))) then ExitCommand
         else if failbit (cin ?s) then FailedStream else EndOfInput, stop_state ?s)" .
    show ?thesis
      using extract_string_fails_iff[of "[]" "cin ?s"] by (auto simp: m r)
  qed
  have c: "continues w \<longleftrightarrow>
         \<not> failbit (cin w) \<and> \<not> input_exhausted (cin w)
         \<and> fst (extract_string [] (cin w)) \<noteq> ''exit''"
    by (simp add: continues_def extract_string_fails_iff)
  have arg: "fst (extract_string [] (cin w)) \<in> {''add'', ''save'', ''load'', ''battle''}"
    if "\<not> failbit (cin w) \<and> continues w \<and> failbit (cin (next_state ux uy ur w))"
    using that only_arguments_fail by blast
  have ex: "how_ended (main ux uy ur ''battle x exit'' fs) = FailedStream
     \<and> buffer (cin (final_world (main ux uy ur ''battle x exit'' fs))) = ''x exit''"
    by (simp add: main_eval)
  have labels: "(how_ended (main ux uy ur stdin fs) = ExitCommand \<longrightarrow>
         \<not> failbit (cin (final_world (main ux uy ur stdin fs))))
   \<and> (how_ended (main ux uy ur stdin fs) = EndOfInput \<longrightarrow>
         failbit (cin (final_world (main ux uy ur stdin fs)))
         \<and> input_exhausted (cin (final_world (main ux uy ur stdin fs))))
   \<and> (how_ended (main ux uy ur stdin fs) = FailedStream \<longrightarrow>
         failbit (cin (final_world (main ux uy ur stdin fs))))"
    using main_loop_end[of ux uy ur ?w] by (simp add: m input_exhausted_def)
  have code: "exit_code (main ux uy ur stdin fs) = 0" by (simp add: m)
  from code ends at_n c arg labels ex show ?thesis by blast
qed

theorem main_ends_only_at_exit_or_failed_read_witness:
  "continues (state_at 0 0 0 0 (initial_world ''print exit'' (all_writable Map.empty)))
   \<and> \<not> continues (state_at 0 0 0 (Suc 0) (initial_world ''print exit'' (all_writable Map.empty)))
   \<and> final_world (main 0 0 0 ''print exit'' (all_writable Map.empty))
       = stop_state (state_at 0 0 0 (Suc 0) (initial_world ''print exit'' (all_writable Map.empty)))
   \<and> how_ended (main 0 0 0 ''print exit'' (all_writable Map.empty)) = ExitCommand
   \<and> buffer (cin (final_world (main 0 0 0 ''print exit'' (all_writable Map.empty)))) = []
   \<and> \<not> failbit (cin (initial_world ''battle x exit'' (all_writable Map.empty)))
   \<and> continues (initial_world ''battle x exit'' (all_writable Map.empty))
   \<and> failbit (cin (next_state 0 0 0 (initial_world ''battle x exit'' (all_writable Map.empty))))
   \<and> fst (extract_string [] (cin (initial_world ''battle x exit'' (all_writable Map.empty))))
       \<in> {''add'', ''save'', ''load'', ''battle''}
   \<and> how_ended (main 0 0 0 ''exit'' (all_writable Map.empty)) = ExitCommand
   \<and> \<not> failbit (cin (final_world (main 0 0 0 ''exit'' (all_writable Map.empty))))
   \<and> how_ended (main 0 0 0 ''print '' (all_writable Map.empty)) = EndOfInput
   \<and> input_exhausted (cin (final_world (main 0 0 0 ''print '' (all_writable Map.empty))))
   \<and> how_ended (main 0 0 0 ''add knight k one 2 exit'' (all_writable Map.empty)) = FailedStream
   \<and> failbit (cin (final_world (main 0 0 0 ''add knight k one 2 exit'' (all_writable Map.empty))))
   \<and> exit_code (main 0 0 0 ''add knight k one 2 exit'' (all_writable Map.empty)) = 0"
proof -
  let ?fs = "all_writable Map.empty"
  let ?w = "initial_world ''print exit'' ?fs"
  have g0: "continues (state_at 0 0 0 0 ?w)"
    by (simp add: loop_eval)
  have g1: "\<not> continues (state_at 0 0 0 (Suc 0) ?w)"
    by (simp add: loop_eval)
  from g0 have all: "\<forall>k<Suc 0. continues (state_at 0 0 0 k ?w)" by simp
  note t = main_ends_only_at_exit_or_failed_read
    [of 0 0 0 "''print exit''" ?fs "Suc 0" "initial_world ''battle x exit'' ?fs"]
  from t all g1 have c1: "final_world (main 0 0 0 ''print exit'' ?fs) = stop_state (state_at 0 0 0 (Suc 0) ?w)"
    by blast
  have r1: "\<not> failbit (snd (extract_string [] (cin (state_at 0 0 0 (Suc 0) ?w))))"
    by (simp add: loop_eval)
  from t all g1 r1 have c2: "how_ended (main 0 0 0 ''print exit'' ?fs) = ExitCommand"
    by blast
  have c3: "buffer (cin (stop_state (state_at 0 0 0 (Suc 0) ?w))) = []"
    by (simp add: loop_eval)
  have b: "\<not> failbit (cin (initial_world ''battle x exit'' ?fs))
     \<and> continues (initial_world ''battle x exit'' ?fs)
     \<and> failbit (cin (next_state 0 0 0 (initial_world ''battle x exit'' ?fs)))"
    by (simp add: loop_eval)
  from t b have c4: "fst (extract_string [] (cin (initial_world ''battle x exit'' ?fs)))
       \<in> {''add'', ''save'', ''load'', ''battle''}"
    by blast
  have h1: "how_ended (main 0 0 0 ''exit'' ?fs) = ExitCommand"
    by (simp add: main_eval)
  have h2: "how_ended (main 0 0 0 ''print '' ?fs) = EndOfInput"
    by (simp add: main_eval)
  have h3: "how_ended (main 0 0 0 ''add knight k one 2 exit'' ?fs) = FailedStream"
    by (simp add: main_eval)
  from h1 main_ends_only_at_exit_or_failed_read [of 0 0 0 "''exit''" ?fs]
  have d1: "\<not> failbit (cin (final_world (main 0 0 0 ''exit'' ?fs)))"
    by blast
  from h2 main_ends_only_at_exit_or_failed_read [of 0 0 0 "''print ''" ?fs]
  have d2: "input_exhausted (cin (final_world (main 0 0 0 ''print '' ?fs)))"
    by blast
  from h3 main_ends_only_at_exit_or_failed_read [of 0 0 0 "''add knight k one 2 exit''" ?fs]
  have d3: "failbit (cin (final_world (main 0 0 0 ''add knight k one 2 exit'' ?fs)))
     \<and> exit_code (main 0 0 0 ''add knight k one 2 exit'' ?fs) = 0"
    by blast
  from g0 g1 c1 c2 c3 b c4 h1 h2 h3 d1 d2 d3 show ?thesis by simp
qed


section \<open>Entities over sequences of operations\<close>

lemma unchanged_refl [simp]: "unchanged_but_alive a a"
  by (simp add: unchanged_but_alive_def)

lemma unchanged_trans:
  "unchanged_but_alive a b \<Longrightarrow> unchanged_but_alive b c \<Longrightarrow> unchanged_but_alive a c"
  by (simp add: unchanged_but_alive_def)

lemma unchanged_markDead [simp]: "unchanged_but_alive a (markDead a)"
  by (simp add: unchanged_but_alive_def markDead_def)

lemma list_update_unchanged: "unchanged_but_alive (xs ! k) (xs[j := markDead (xs ! j)] ! k)"
proof (cases "j < length xs")
  case True
  then show ?thesis by (cases "k = j") simp_all
next
  case False
  then show ?thesis by (simp add: list_update_beyond)
qed

lemma accept_unchanged: "unchanged_but_alive (npcs d ! k) (npcs (accept rng i j d) ! k)"
  by (subst accept_eq) (simp add: list_update_unchanged)

lemma battle_inner_unchanged:
  "unchanged_but_alive (npcs d ! k) (npcs (battle_inner rng i j d) ! k)"
proof (induction rng i j d rule: battle_inner.induct)
  case (1 rng i j d)
  show ?case
  proof (cases "j < length (npcs d)")
    case False
    then show ?thesis by (subst battle_inner.simps) simp
  next
    case True
    show ?thesis
    proof (cases "isAlive (npcs d ! j)")
      case False
      then show ?thesis
        using "1.IH"(1)[OF True] True by (subst battle_inner.simps) simp
    next
      case alive: True
      have "unchanged_but_alive (npcs d ! k) (npcs (accept rng j i (accept rng i j d)) ! k)"
        using accept_unchanged unchanged_trans by blast
      then have "unchanged_but_alive (npcs d ! k)
          (npcs (battle_inner rng i (j + 1) (accept rng j i (accept rng i j d))) ! k)"
        using "1.IH"(2)[OF True] alive unchanged_trans by blast
      then show ?thesis using True alive by (subst battle_inner.simps) simp
    qed
  qed
qed

lemma battle_outer_unchanged:
  "unchanged_but_alive (npcs d ! k) (npcs (battle_outer rng i d) ! k)"
proof (induction rng i d rule: battle_outer.induct)
  case (1 rng i d)
  show ?case
  proof (cases "i < length (npcs d)")
    case False
    then show ?thesis by (subst battle_outer.simps) simp
  next
    case True
    show ?thesis
    proof (cases "isAlive (npcs d ! i)")
      case False
      then show ?thesis
        using "1.IH"(1)[OF True] True by (subst battle_outer.simps) simp
    next
      case alive: True
      have "unchanged_but_alive (npcs d ! k)
          (npcs (battle_outer rng (i + 1) (battle_inner rng i (i + 1) d)) ! k)"
        using "1.IH"(2)[OF True] alive battle_inner_unchanged unchanged_trans by blast
      then show ?thesis using True alive by (subst battle_outer.simps) simp
    qed
  qed
qed

lemma filter_nth_kept:
  assumes "k < length xs" "P (xs ! k)"
  shows "length (filter P (take k xs)) < length (filter P xs)"
    and "filter P xs ! length (filter P (take k xs)) = xs ! k"
proof -
  have "xs = take k xs @ xs ! k # drop (Suc k) xs"
    using assms(1) by (rule id_take_nth_drop)
  then have "filter P xs = filter P (take k xs) @ filter P (xs ! k # drop (Suc k) xs)"
    by (metis filter_append)
  then have f: "filter P xs = filter P (take k xs) @ xs ! k # filter P (drop (Suc k) xs)"
    using assms(2) by simp
  have "length (filter P xs) = length (filter P (take k xs)) + Suc (length (filter P (drop (Suc k) xs)))"
    by (subst f) simp
  then show "length (filter P (take k xs)) < length (filter P xs)"
    by simp
  show "filter P xs ! length (filter P (take k xs)) = xs ! k"
    by (subst f) simp
qed

lemma position_after_step:
  assumes "k < length (npcs d)" "position_after op d k = Some k'"
  shows "k' < length (npcs (fst (exec_op op (d, fs))))
     \<and> unchanged_but_alive (npcs d ! k) (npcs (fst (exec_op op (d, fs))) ! k')"
proof (cases op)
  case (Add type name x y)
  then show ?thesis using assms by (auto simp: addNPC_def nth_append)
next
  case Print
  then show ?thesis using assms by (simp add: print_def)
next
  case (Save filename)
  then show ?thesis using assms by simp
next
  case (Load filename)
  then show ?thesis using assms by simp
next
  case (Battle rng)
  let ?xs = "npcs (battle_outer rng 0 d)"
  from Battle assms(2) have alive: "isAlive (?xs ! k)"
    and k': "k' = length (filter isAlive (take k ?xs))"
    by (auto split: if_splits)
  have len: "k < length ?xs" using assms(1) by simp
  have n: "npcs (fst (exec_op op (d, fs))) = filter isAlive ?xs"
    using Battle by (simp add: battle_def Let_def)
  have "k' < length (filter isAlive ?xs)" "filter isAlive ?xs ! k' = ?xs ! k"
    unfolding k' using filter_nth_kept[OF len, of isAlive] alive by simp_all
  then show ?thesis
    using battle_outer_unchanged[of d k rng 0] by (simp add: n)
qed

lemma position_after_all_unchanged:
  assumes "k < length (npcs (fst s))" "position_after_all ops s k = Some k'"
  shows "k' < length (npcs (fst (exec_ops ops s)))
     \<and> unchanged_but_alive (npcs (fst s) ! k) (npcs (fst (exec_ops ops s)) ! k')"
  using assms
proof (induction ops arbitrary: s k)
  case Nil
  then show ?case by simp
next
  case (Cons op ops)
  obtain d fs where s: "s = (d, fs)" by (cases s)
  from Cons.prems(2) obtain k1 where k1: "position_after op d k = Some k1"
    and rest: "position_after_all ops (exec_op op s) k1 = Some k'"
    by (auto simp: s split: option.splits)
  from position_after_step[OF _ k1, of fs] Cons.prems(1)
  have step: "k1 < length (npcs (fst (exec_op op s)))"
    "unchanged_but_alive (npcs d ! k) (npcs (fst (exec_op op s)) ! k1)"
    by (simp_all add: s)
  from Cons.IH[OF step(1) rest] step(2) show ?case
    using unchanged_trans by (auto simp: s)
qed


lemma loadFromStream_alive: "loadFromStream s = (Some npc, s') \<Longrightarrow> isAlive npc"
  by (auto simp: loadFromStream_def createNPC_def case_prod_beta split: if_splits)

lemma load_loop_alive: "list_all isAlive acc \<Longrightarrow> list_all isAlive (load_loop inp acc)"
proof (induction inp acc rule: load_loop.induct)
  case (1 inp acc)
  show ?case
  proof (cases "loadFromStream inp")
    case (Pair r inp')
    show ?thesis
    proof (cases r)
      case None
      then show ?thesis using Pair "1.prems" by (subst load_loop.simps) simp
    next
      case (Some npc)
      have "list_all isAlive (acc @ [npc])"
        using "1.prems" loadFromStream_alive[of inp npc inp'] Pair Some by simp
      then have "list_all isAlive (load_loop inp' (acc @ [npc]))"
        by (rule "1.IH"[OF Pair[symmetric] Some])
      then show ?thesis using Pair Some by (subst load_loop.simps) simp
    qed
  qed
qed

text \<open>
  Claim C10: over every sequence of registry operations, an entity that still exists has
  the kind, name and coordinates it had before, and is alive only if it was alive before;
  the two loops of a battle pass, the only code that changes an entity, keep every index
  and change at most the alive flag, from true to false; an entity is constructed alive
  (by \<open>createNPC\<close>, also when loaded) and \<open>markDead\<close> changes the alive flag only.
\<close>

theorem entity_fields_never_change:
  "(k < length (npcs d) \<and> position_after_all ops (d, fs) k = Some k' \<longrightarrow>
      k' < length (npcs (fst (exec_ops ops (d, fs))))
      \<and> getType (npcs (fst (exec_ops ops (d, fs))) ! k') = getType (npcs d ! k)
      \<and> getName (npcs (fst (exec_ops ops (d, fs))) ! k') = getName (npcs d ! k)
      \<and> getX (npcs (fst (exec_ops ops (d, fs))) ! k') = getX (npcs d ! k)
      \<and> getY (npcs (fst (exec_ops ops (d, fs))) ! k') = getY (npcs d ! k)
      \<and> (isAlive (npcs (fst (exec_ops ops (d, fs))) ! k') \<longrightarrow> isAlive (npcs d ! k)))
   \<and> length (npcs (battle_outer rng 0 d)) = length (npcs d)
   \<and> getType (npcs (battle_outer rng 0 d) ! k) = getType (npcs d ! k)
   \<and> getName (npcs (battle_outer rng 0 d) ! k) = getName (npcs d ! k)
   \<and> getX (npcs (battle_outer rng 0 d) ! k) = getX (npcs d ! k)
   \<and> getY (npcs (battle_outer rng 0 d) ! k) = getY (npcs d ! k)
   \<and> (isAlive (npcs (battle_outer rng 0 d) ! k) \<longrightarrow> isAlive (npcs d ! k))
   \<and> createNPC type name x y =
        \<lparr>getType = type, getName = name, getX = x, getY = y, isAlive = True\<rparr>
   \<and> list_all isAlive (npcs (loadFromFile filename fs d))
   \<and> markDead n = n\<lparr>isAlive := False\<rparr>"
proof -
  have seq: "k' < length (npcs (fst (exec_ops ops (d, fs))))
      \<and> unchanged_but_alive (npcs d ! k) (npcs (fst (exec_ops ops (d, fs))) ! k')"
    if "k < length (npcs d) \<and> position_after_all ops (d, fs) k = Some k'"
    using position_after_all_unchanged[of k "(d, fs)" ops k'] that by simp
  have pass: "unchanged_but_alive (npcs d ! k) (npcs (battle_outer rng 0 d) ! k)"
    by (rule battle_outer_unchanged)
  have loaded: "list_all isAlive (npcs (loadFromFile filename fs d))"
    by (simp add: loadFromFile_def load_loop_alive)
  show ?thesis
    using seq pass loaded
    by (simp add: unchanged_but_alive_def createNPC_def markDead_def)
qed

theorem entity_fields_never_change_witness:
  "(1::nat) < length (npcs dragon_knight_princess)
   \<and> position_after_all battle_add_print (dragon_knight_princess, all_writable Map.empty) 1 = Some 0
   \<and> (0::nat) < length (npcs (fst (exec_ops battle_add_print
                                    (dragon_knight_princess, all_writable Map.empty))))
   \<and> getType (npcs (fst (exec_ops battle_add_print
                 (dragon_knight_princess, all_writable Map.empty))) ! 0) = KNIGHT
   \<and> getName (npcs (fst (exec_ops battle_add_print
                 (dragon_knight_princess, all_writable Map.empty))) ! 0) = ''K''
   \<and> getX (npcs (fst (exec_ops battle_add_print
                 (dragon_knight_princess, all_writable Map.empty))) ! 0) = 0
   \<and> getY (npcs (fst (exec_ops battle_add_print
                 (dragon_knight_princess, all_writable Map.empty))) ! 0) = 0
   \<and> isAlive (npcs (fst (exec_ops battle_add_print
                 (dragon_knight_princess, all_writable Map.empty))) ! 0)
   \<and> isAlive (npcs dragon_knight_princess ! 1)"
proof -
  have h: "(1::nat) < length (npcs dragon_knight_princess)
     \<and> position_after_all battle_add_print (dragon_knight_princess, all_writable Map.empty) 1 = Some 0"
    by (simp add: battle_add_print_def dragon_knight_princess_def battle_run)
  have a: "isAlive (npcs (fst (exec_ops battle_add_print
                 (dragon_knight_princess, all_writable Map.empty))) ! 0)"
    by (simp add: battle_add_print_def dragon_knight_princess_def battle_run addNPC_def
        createNPC_def print_def)
  note t = entity_fields_never_change [of 1 dragon_knight_princess battle_add_print
      "all_writable Map.empty" 0]
  from t h a have
    "0 < length (npcs (fst (exec_ops battle_add_print
                                    (dragon_knight_princess, all_writable Map.empty))))
     \<and> getType (npcs (fst (exec_ops battle_add_print
                 (dragon_knight_princess, all_writable Map.empty))) ! 0)
         = getType (npcs dragon_knight_princess ! 1)
     \<and> getName (npcs (fst (exec_ops battle_add_print
                 (dragon_knight_princess, all_writable Map.empty))) ! 0)
         = getName (npcs dragon_knight_princess ! 1)
     \<and> getX (npcs (fst (exec_ops battle_add_print
                 (dragon_knight_princess, all_writable Map.empty))) ! 0)
         = getX (npcs dragon_knight_princess ! 1)
     \<and> getY (npcs (fst (exec_ops battle_add_print
                 (dragon_knight_princess, all_writable Map.empty))) ! 0)
         = getY (npcs dragon_knight_princess ! 1)
     \<and> isAlive (npcs dragon_knight_princess ! 1)"
    by blast
  moreover have "npcs dragon_knight_princess ! 1 =
      \<lparr>getType = KNIGHT, getName = ''K'', getX = 0, getY = 0, isAlive = True\<rparr>"
    by (simp add: dragon_knight_princess_def)
  ultimately show ?thesis using h a by simp
qed


section \<open>The registries the program builds can be saved\<close>

lemma extract_string_is_token:
  assumes "\<not> failbit (snd (extract_string old s))"
  shows "fst (extract_string old s) \<noteq> []"
    and "list_all (\<lambda>c. \<not> isspace c) (fst (extract_string old s))"
proof -
  let ?b = "dropWhile isspace (buffer s)"
  from assms have ne: "?b \<noteq> []" and ok: "\<not> failbit s"
    by (auto simp: extract_string_def Let_def split: if_splits)
  then have tok: "fst (extract_string old s) = takeWhile (\<lambda>c. \<not> isspace c) ?b"
    by (auto simp: extract_string_def Let_def)
  from ne have "\<not> isspace (hd ?b)" using hd_dropWhile by blast
  then have "takeWhile (\<lambda>c. \<not> isspace c) ?b \<noteq> []"
    using ne by (cases ?b) auto
  then show "fst (extract_string old s) \<noteq> []" by (simp add: tok)
  show "list_all (\<lambda>c. \<not> isspace c) (fst (extract_string old s))"
    unfolding tok list_all_iff using set_takeWhileD by fastforce
qed

lemma extract_string_sticky: "failbit s \<Longrightarrow> failbit (snd (extract_string old s))"
  by (simp add: extract_string_def)

lemma extract_int_sticky: "failbit s \<Longrightarrow> failbit (snd (extract_int old s))"
  by (simp add: extract_int_def)

lemma loadFromStream_saveable:
  assumes "loadFromStream s = (Some npc, s')"
  shows "saveable npc"
proof -
  let ?r1 = "extract_string [] s"
  let ?r2 = "extract_string [] (snd ?r1)"
  let ?r3 = "extract_int 0 (snd ?r2)"
  let ?r4 = "extract_int 0 (snd ?r3)"
  from assms have ok4: "\<not> failbit (snd ?r4)"
    and x: "0 \<le> fst ?r3" "fst ?r3 \<le> 500" and y: "0 \<le> fst ?r4" "fst ?r4 \<le> 500"
    and npc: "getName npc = fst ?r2" "getX npc = fst ?r3" "getY npc = fst ?r4"
    by (auto simp: loadFromStream_def createNPC_def case_prod_beta split: if_splits)
  from ok4 have "\<not> failbit (snd ?r2)"
    using extract_int_sticky by blast
  then have "fst ?r2 \<noteq> []" "list_all (\<lambda>c. \<not> isspace c) (fst ?r2)"
    by (rule extract_string_is_token)+
  then show ?thesis using x y by (simp add: saveable_def npc)
qed

lemma load_loop_saveable: "list_all saveable acc \<Longrightarrow> list_all saveable (load_loop inp acc)"
proof (induction inp acc rule: load_loop.induct)
  case (1 inp acc)
  show ?case
  proof (cases "loadFromStream inp")
    case (Pair r inp')
    show ?thesis
    proof (cases r)
      case None
      then show ?thesis using Pair "1.prems" by (subst load_loop.simps) simp
    next
      case (Some npc)
      have "list_all saveable (acc @ [npc])"
        using "1.prems" loadFromStream_saveable[of inp npc inp'] Pair Some by simp
      then have "list_all saveable (load_loop inp' (acc @ [npc]))"
        by (rule "1.IH"[OF Pair[symmetric] Some])
      then show ?thesis using Pair Some by (subst load_loop.simps) simp
    qed
  qed
qed

lemma loadFromFile_saveable: "list_all saveable (npcs (loadFromFile filename fs d))"
  by (simp add: loadFromFile_def load_loop_saveable)

lemma addNPC_saveable:
  "name \<noteq> [] \<Longrightarrow> list_all (\<lambda>c. \<not> isspace c) name \<Longrightarrow> list_all saveable (npcs d) \<Longrightarrow>
     list_all saveable (npcs (addNPC type name x y d))"
  by (simp add: addNPC_def createNPC_def saveable_def)

lemma unchanged_saveable: "unchanged_but_alive a b \<Longrightarrow> saveable a \<Longrightarrow> saveable b"
  by (simp add: unchanged_but_alive_def saveable_def)

lemma battle_saveable:
  assumes "list_all saveable (npcs d)"
  shows "list_all saveable (npcs (battle rng d))"
proof -
  have "saveable (npcs (battle_outer rng 0 d) ! k)" if "k < length (npcs d)" for k
    using that assms battle_outer_unchanged[of d k rng 0] unchanged_saveable
    by (auto simp: list_all_length)
  then have "list_all saveable (npcs (battle_outer rng 0 d))"
    by (simp add: list_all_length)
  then show ?thesis
    by (simp add: battle_def Let_def list_all_iff)
qed


lemma add_command_saveable:
  assumes "registry_saveable w"
  shows "registry_saveable (add_command ux uy w)"
proof (cases "failbit (cin (add_command ux uy w))")
  case True
  then show ?thesis by (simp add: registry_saveable_def)
next
  case False
  let ?r1 = "extract_string [] (cin w)"
  let ?r2 = "extract_string [] (snd ?r1)"
  let ?r3 = "extract_int ux (snd ?r2)"
  let ?r4 = "extract_int uy (snd ?r3)"
  have c: "cin (add_command ux uy w) = snd ?r4"
    by (simp add: add_command_def case_prod_beta cout_def)
  with False have ok2: "\<not> failbit (snd ?r2)"
    using extract_int_sticky by metis
  then have name: "fst ?r2 \<noteq> []" "list_all (\<lambda>c. \<not> isspace c) (fst ?r2)"
    by (rule extract_string_is_token)+
  from ok2 have "\<not> failbit (cin w)"
    using extract_string_sticky by metis
  with assms have reg: "list_all saveable (npcs (dungeon w))"
    by (simp add: registry_saveable_def)
  have "list_all saveable (npcs (dungeon (add_command ux uy w)))"
    using addNPC_saveable[OF name reg] reg
    by (simp add: add_command_def case_prod_beta cout_def)
  then show ?thesis by (simp add: registry_saveable_def)
qed

lemma save_command_saveable: "registry_saveable w \<Longrightarrow> registry_saveable (save_command w)"
  using extract_string_sticky[of "cin w" "[]"]
  by (auto simp: registry_saveable_def save_command_def case_prod_beta)

lemma load_command_saveable: "registry_saveable (load_command w)"
  by (simp add: registry_saveable_def load_command_def case_prod_beta loadFromFile_saveable)

lemma extract_double_sticky: "failbit s \<Longrightarrow> failbit (snd (extract_double old s))"
  by (simp add: extract_double_def)

lemma battle_command_saveable: "registry_saveable w \<Longrightarrow> registry_saveable (battle_command ur w)"
  using extract_double_sticky[of "cin w" ur] battle_saveable
  by (auto simp: registry_saveable_def battle_command_def case_prod_beta)


lemma main_loop_saveable:
  "registry_saveable w \<Longrightarrow> registry_saveable (snd (main_loop ux uy ur w))"
proof (induction ux uy ur w rule: main_loop.induct)
  case (1 ux uy ur w)
  define w0 where "w0 = cout Prompt w"
  define command where "command = fst (extract_string [] (cin w0))"
  define c1 where "c1 = snd (extract_string [] (cin w0))"
  have read: "extract_string [] (cin w0) = (command, c1)"
    by (simp add: command_def c1_def)
  note IH = "1.IH"[OF w0_def read[symmetric]]
  show ?case
  proof (cases "failbit c1")
    case True
    then have "snd (main_loop ux uy ur w) = w0\<lparr>cin := c1\<rparr>"
      by (subst main_loop.simps) (simp add: w0_def[symmetric] read)
    then show ?thesis using True by (simp add: registry_saveable_def)
  next
    case False
    then have "\<not> failbit (cin w)"
      using extract_string_sticky[of "cin w0" "[]"] by (auto simp: c1_def w0_def)
    with "1.prems" have "list_all saveable (npcs (dungeon w))"
      by (simp add: registry_saveable_def)
    then have reg: "list_all saveable (npcs (dungeon w0))"
      by (simp add: w0_def cout_def)
    then have start: "registry_saveable (w0\<lparr>cin := c1\<rparr>)"
      by (simp add: registry_saveable_def)
    consider "command = ''add''" | "command = ''print''" | "command = ''save''"
      | "command = ''load''" | "command = ''battle''" | "command = ''exit''"
      | "command \<noteq> ''add''" "command \<noteq> ''print''" "command \<noteq> ''save''"
        "command \<noteq> ''load''" "command \<noteq> ''battle''" "command \<noteq> ''exit''"
      by blast
    then show ?thesis
    proof cases
      case 1
      then have "main_loop ux uy ur w = main_loop ux uy ur (add_command ux uy (w0\<lparr>cin := c1\<rparr>))"
        using False by (subst main_loop.simps) (simp add: w0_def[symmetric] read)
      then show ?thesis
        using IH(1)[OF False 1 add_command_saveable[OF start]] by simp
    next
      case 2
      have "registry_saveable (w0\<lparr>cin := c1, dungeon := print (dungeon w0)\<rparr>)"
        using reg by (simp add: registry_saveable_def print_def)
      moreover have "main_loop ux uy ur w =
          main_loop ux uy ur (w0\<lparr>cin := c1, dungeon := print (dungeon w0)\<rparr>)"
        using False 2 by (subst main_loop.simps) (simp add: w0_def[symmetric] read)
      ultimately show ?thesis using IH(2)[OF False _ 2] 2 by simp
    next
      case 3
      then have "main_loop ux uy ur w = main_loop ux uy ur (save_command (w0\<lparr>cin := c1\<rparr>))"
        using False by (subst main_loop.simps) (simp add: w0_def[symmetric] read)
      then show ?thesis
        using IH(3)[OF False _ _ 3 save_command_saveable[OF start]] 3 by simp
    next
      case 4
      then have "main_loop ux uy ur w = main_loop ux uy ur (load_command (w0\<lparr>cin := c1\<rparr>))"
        using False by (subst main_loop.simps) (simp add: w0_def[symmetric] read)
      then show ?thesis
        using IH(4)[OF False _ _ _ 4 load_command_saveable] 4 by simp
    next
      case 5
      then have "main_loop ux uy ur w = main_loop ux uy ur (battle_command ur (w0\<lparr>cin := c1\<rparr>))"
        using False by (subst main_loop.simps) (simp add: w0_def[symmetric] read)
      then show ?thesis
        using IH(5)[OF False _ _ _ _ 5 battle_command_saveable[OF start]] 5 by simp
    next
      case 6
      then have "main_loop ux uy ur w = (ExitCommand, w0\<lparr>cin := c1\<rparr>)"
        using False by (subst main_loop.simps) (simp add: w0_def[symmetric] read)
      then show ?thesis using start by simp
    next
      case 7
      have "registry_saveable (cout UnknownCommand (w0\<lparr>cin := c1\<rparr>))"
        using start by (simp add: registry_saveable_def cout_def)
      moreover have "main_loop ux uy ur w =
          main_loop ux uy ur (cout UnknownCommand (w0\<lparr>cin := c1\<rparr>))"
        using False 7 by (subst main_loop.simps) (simp add: w0_def[symmetric] read)
      ultimately show ?thesis using IH(6)[OF False 7] by simp
    qed
  qed
qed


end
